theory Spec2Isabelle
  imports
    Complex_Main
    "HOL-Library.Word"
    "HOL-Library.Multiset"
    "HOL-Library.Char_ord"
    "HOL-Library.List_Lexorder"
    "HOL-Library.AList"
begin

section \<open>Data model of pkg/api/composition.go\<close>

text \<open>
  Go's \<^verbatim>\<open>uint\<close> is a 64-bit unsigned integer on the platforms the daemon runs on:
  addition wraps around. Go's \<^verbatim>\<open>int\<close> values are only compared here, never added, so
  they are mathematical integers. Strings are byte sequences, ordered bytewise
  (\<^verbatim>\<open>sort.Strings\<close>, \<^verbatim>\<open>strings.Compare\<close>): the lexicographic order on \<open>char list\<close>.
\<close>

type_synonym uint = "64 word"

text \<open>
  A \<^verbatim>\<open>float64\<close> is modelled by the value it denotes: not-a-number, an infinity, or a
  real number (both zeros are \<open>Finite 0\<close>). Rounding is not modelled; the only float
  results the embedded code inspects without a parameter are signs of sums in which one
  summand is zero.
\<close>

datatype float64 = NaN | PInf | NInf | Finite real

text \<open>
  A value of type \<^verbatim>\<open>interface{}\<close>, as the decoders of TOML and JSON produce them;
  \<open>ANil\<close> is the nil interface, the value of a field that is not set.
\<close>

datatype any =
    AString string
  | AInt int
  | ABool bool
  | AList "any list"
  | AMap "(string \<times> any) list"
  | AFloat float64
  | ANil

text \<open>
  A Go map is an association list read through \<open>map_of\<close>; \<^verbatim>\<open>m[k] = v\<close> is
  \<open>AList.update k v m\<close>, \<^verbatim>\<open>len(m) == 0\<close> is \<open>m = []\<close>. Where the code tells a nil map
  from an allocated one the map is an \<open>option\<close>. A \<^verbatim>\<open>range\<close> loop over a map visits the
  entries in the order of the list.
\<close>

type_synonym ConfigMap = "(string \<times> any) list"
type_synonym StringMap = "(string \<times> string) list"

type_synonym addr = nat

record Metadata =
  meta_Name :: string
  Author :: string

record Resources =
  Memory :: string
  CPU :: string

record Instances =
  Count :: uint
  Percentage :: float64

record Dependency =
  Module :: string
  Target :: string
  Version :: string

record Build =
  Selectors :: "string list"
  Dependencies :: "Dependency list"

record Run =
  Artifact :: string
  TestParams :: "StringMap option"
  Profiles :: "StringMap option"

record Group =
  ID :: string
  Resources :: Resources
  Instances :: Instances
  BuildConfig :: "ConfigMap option"
  Build :: Build
  Run :: Run
  calculatedInstanceCnt :: uint

text \<open>
  \<^verbatim>\<open>Global.BuildConfig\<close> and \<^verbatim>\<open>Global.RunConfig\<close> are Go maps, that is references: the
  fields hold the address of the map object (\<open>None\<close> for nil). \<^verbatim>\<open>Global.Build\<close> and
  \<^verbatim>\<open>Global.Run\<close> are pointers that are only read.
\<close>

record Global =
  Plan :: string
  Case :: string
  TotalInstances :: uint
  Builder :: string
  Global_BuildConfig :: "addr option"
  Global_Build :: "Build option"
  Runner :: string
  Global_RunConfig :: "addr option"
  Global_Run :: "Run option"
  DisableMetrics :: bool

text \<open>\<^verbatim>\<open>Groups\<close> is \<^verbatim>\<open>[]*Group\<close>: the composition holds the addresses of its groups.\<close>

record Composition =
  Metadata :: Metadata
  Global :: Global
  Groups :: "addr list"

text \<open>
  The store: the \<^verbatim>\<open>Group\<close> objects and the global configuration maps, by address, and
  the next address \<^verbatim>\<open>make\<close> hands out for a configuration map. The maps a group owns
  (\<^verbatim>\<open>BuildConfig\<close>, \<^verbatim>\<open>TestParams\<close>, \<^verbatim>\<open>Profiles\<close>) live in the group's cell: no two
  groups share a map object, as in every composition the decoders build.
\<close>

record store =
  group_at :: "addr \<Rightarrow> Group"
  map_at :: "addr \<Rightarrow> ConfigMap"
  fresh :: addr

subsection \<open>The test plan manifest\<close>

record InstanceConstraints =
  Minimum :: int
  Maximum :: int

record Parameter =
  param_Type :: string
  Default :: any

record TestCase =
  tc_Name :: string
  tc_Instances :: InstanceConstraints
  Parameters :: "(string \<times> Parameter) list"

record TestPlanManifest =
  Name :: string
  Builders :: "(string \<times> ConfigMap) list"
  Runners :: "(string \<times> ConfigMap) list"
  TestCases :: "TestCase list"

subsection \<open>Errors and panics\<close>

datatype error =
    NoBuildersSupported
  | UnsupportedBuilder string "string list"
  | NoRunnersSupported
  | UnsupportedRunner string "string list"
  | TestCaseNotFound string string
  | InstanceCountOutOfRange int int int string
  | ParameterMarshalError string
  | InvalidGroupIndex int
  | InstanceCountMismatch uint uint
  | DuplicateGroupID string
  | ValidationError string
  | InvalidComposition error
  | UnrecognizedBuilder string
  | HealthcheckErrored string
  | HealthcheckFixesFailed
  | CoalesceError string
  | SourceCopyError string
  | PluginError string

datatype panic = IndexOutOfRange int | NilDereference | TypeAssertion

datatype 'a result = Ok 'a | Err error | Panic panic

section \<open>BuildKey\<close>

text \<open>\<^verbatim>\<open>strings.Join(elems, sep)\<close>.\<close>

fun strings_Join :: "string list \<Rightarrow> string \<Rightarrow> string" where
  "strings_Join [] sep = []"
| "strings_Join [x] sep = x"
| "strings_Join (x # y # ys) sep = x @ sep @ strings_Join (y # ys) sep"

text \<open>\<^verbatim>\<open>fmt.Sprintf("%s:%s|", d.Module, d.Version)\<close>.\<close>

definition dep_entry :: "Dependency \<Rightarrow> string" where
  "dep_entry d = Module d @ '':'' @ Version d @ ''|''"

text \<open>
  \<^verbatim>\<open>sort.Strings\<close> on a copy of the selectors is \<open>sort\<close>; \<^verbatim>\<open>sort.SliceStable\<close> with the
  comparison of the modules is the stable \<open>sort_key Module\<close>.
\<close>

definition BuildKey :: "Build \<Rightarrow> string" where
  "BuildKey b =
     (let selectors = sort (Selectors b);
          dependencies = sort_key Module (Dependencies b)
      in ''selectors='' @ strings_Join selectors '','' @ '';''
         @ ''dependencies='' @ concat (map dep_entry dependencies))"

section \<open>Go maps and the standard library\<close>

text \<open>The entries a \<^verbatim>\<open>range\<close> loop over a map visits: every key once.\<close>

definition entries :: "('k \<times> 'v) list \<Rightarrow> ('k \<times> 'v) list" where
  "entries m = AList.clearjunk m"

definition map_len :: "('k \<times> 'v) list \<Rightarrow> nat" where
  "map_len m = length (entries m)"

text \<open>
  The loop \<^verbatim>\<open>for k, v := range from { if _, ok := to[k]; !ok { to[k] = v } }\<close>, which
  PrepareForBuild and PrepareForRun run on configuration maps, test parameters and
  profiles; the first argument is the list of entries still to visit.
\<close>

fun copy_missing :: "('k \<times> 'v) list \<Rightarrow> ('k \<times> 'v) list \<Rightarrow> ('k \<times> 'v) list" where
  "copy_missing [] to = to"
| "copy_missing ((k, v) # from) to =
     copy_missing from (if map_of to k = None then AList.update k v to else to)"

text \<open>The loop \<^verbatim>\<open>for k, v := range from { result[k] = v }\<close>.\<close>

fun copy_all :: "('k \<times> 'v) list \<Rightarrow> ('k \<times> 'v) list \<Rightarrow> ('k \<times> 'v) list" where
  "copy_all [] result = result"
| "copy_all ((k, v) # from) result = copy_all from (AList.update k v result)"

text \<open>
  \<^verbatim>\<open>sort.Search(n, f)\<close> of the standard library, the binary search
  \<^verbatim>\<open>i, j := 0, n; for i < j { h := int(uint(i+j) >> 1); if !f(h) { i = h + 1 } else { j = h } }; return i\<close>,
  and \<^verbatim>\<open>sort.SearchStrings(a, x) = sort.Search(len(a), func(i) { return a[i] >= x })\<close>.
\<close>

function sort_Search :: "nat \<Rightarrow> nat \<Rightarrow> (nat \<Rightarrow> bool) \<Rightarrow> nat" where
  "sort_Search i j f =
     (if i < j
      then (if \<not> f ((i + j) div 2) then sort_Search ((i + j) div 2 + 1) j f
            else sort_Search i ((i + j) div 2) f)
      else i)"
  by pat_completeness auto
termination
  by (relation "measure (\<lambda>(i, j, f). j - i)") auto

definition SearchStrings :: "string list \<Rightarrow> string \<Rightarrow> nat" where
  "SearchStrings a x = sort_Search 0 (length a) (\<lambda>i. a ! i \<ge> x)"

section \<open>Validation\<close>

text \<open>Comparisons and sums of \<^verbatim>\<open>float64\<close>, and the conversion \<^verbatim>\<open>float64(n)\<close>.\<close>

definition f64_of_uint :: "uint \<Rightarrow> float64" where
  "f64_of_uint n = Finite (real (unat n))"

fun f64_add :: "float64 \<Rightarrow> float64 \<Rightarrow> float64" where
  "f64_add (Finite a) (Finite b) = Finite (a + b)"
| "f64_add NaN y = NaN"
| "f64_add x NaN = NaN"
| "f64_add PInf NInf = NaN"
| "f64_add NInf PInf = NaN"
| "f64_add PInf y = PInf"
| "f64_add x PInf = PInf"
| "f64_add NInf y = NInf"
| "f64_add x NInf = NInf"

fun f64_is_zero :: "float64 \<Rightarrow> bool" where
  "f64_is_zero (Finite a) = (a = 0)"
| "f64_is_zero x = False"

fun f64_positive :: "float64 \<Rightarrow> bool" where
  "f64_positive (Finite a) = (a > 0)"
| "f64_positive PInf = True"
| "f64_positive x = False"

text \<open>
  ValidateInstances: the struct-level validation registered for \<^verbatim>\<open>Instances\<close>. The
  result is the list of the fields it reports in error; it accepts when the list is empty.
\<close>

definition ValidateInstances :: "Instances \<Rightarrow> string list" where
  "ValidateInstances instances =
     (if (Count instances = 0 \<or> f64_is_zero (Percentage instances))
         \<and> f64_positive (f64_add (f64_of_uint (Count instances)) (Percentage instances))
      then []
      else [''count'', ''percentage''])"

text \<open>Groups.Validate: the ids of the groups are unique. \<open>m\<close> is the set of ids seen.\<close>

fun Groups_Validate_loop :: "string list \<Rightarrow> Group list \<Rightarrow> error option" where
  "Groups_Validate_loop m [] = None"
| "Groups_Validate_loop m (g # gs) =
     (if ID g \<in> set m then Some (DuplicateGroupID (ID g))
      else Groups_Validate_loop (ID g # m) gs)"

definition Groups_Validate :: "store \<Rightarrow> addr list \<Rightarrow> error option" where
  "Groups_Validate s gs = Groups_Validate_loop [] (map (group_at s) gs)"

text \<open>
  What the code calls in other packages and in the runtime, as parameters of the model:
  the struct validator of go-playground/validator (\<open>None\<close> when it accepts), the float
  expression \<^verbatim>\<open>uint(math.Round(percentage * float64(total)))\<close>, \<^verbatim>\<open>json.Marshal\<close>
  (\<open>None\<close> when it fails), the configuration coalescer, the duplication of a source tree
  for the \<open>i\<close>-th unique build (\<^verbatim>\<open>copy.Copy\<close> and the paths derived from its destination),
  the build ids \<^verbatim>\<open>uuid.New()\<close> draws, the order in which \<^verbatim>\<open>range uniq\<close> visits the
  entries of the map of build keys (Go leaves it to the runtime: \<open>range_order\<close> permutes
  the entries), and the order in which the build fibers finish.
\<close>

record UnpackedSources =
  BaseDir :: string
  PlanDir :: string
  SDKDir :: string
  ExtraDir :: string

record Extern =
  validator_Struct :: "store \<Rightarrow> Composition \<Rightarrow> string option"
  validator_StructExcept :: "store \<Rightarrow> Composition \<Rightarrow> string option"
  round_percentage :: "float64 \<Rightarrow> uint \<Rightarrow> uint"
  json_Marshal :: "any \<Rightarrow> string option"
  CoalesceIntoType :: "ConfigMap option list \<Rightarrow> string \<Rightarrow> string + any"
  duplicate_sources :: "UnpackedSources \<Rightarrow> nat \<Rightarrow> string + UnpackedSources"
  uuid_New :: "nat \<Rightarrow> string"
  range_order :: "(string \<times> nat list) list \<Rightarrow> (string \<times> nat list) list"
  finish_order :: "nat list"

definition ValidateForBuild :: "Extern \<Rightarrow> store \<Rightarrow> Composition \<Rightarrow> error option" where
  "ValidateForBuild x s c =
     (case validator_StructExcept x s c of
        Some msg \<Rightarrow> Some (ValidationError msg)
      | None \<Rightarrow> Groups_Validate s (Groups c))"

text \<open>
  The loop of ValidateForRun over the groups: it stores each group's
  \<^verbatim>\<open>calculatedInstanceCnt\<close> through the group's pointer and accumulates \<open>cum\<close>.
\<close>

fun calculate_instances ::
  "Extern \<Rightarrow> uint \<Rightarrow> addr list \<Rightarrow> store \<Rightarrow> uint \<Rightarrow> store \<times> uint" where
  "calculate_instances x tot [] s cum = (s, cum)"
| "calculate_instances x tot (a # as) s cum =
     (let g = group_at s a;
          cnt = (if Count (Instances g) = 0
                 then round_percentage x (Percentage (Instances g)) tot
                 else Count (Instances g));
          s' = s\<lparr>group_at := (group_at s)(a := g\<lparr>calculatedInstanceCnt := cnt\<rparr>)\<rparr>
      in calculate_instances x tot as s' (cum + cnt))"

definition ValidateForRun :: "Extern \<Rightarrow> store \<Rightarrow> Composition \<Rightarrow> store \<times> error option" where
  "ValidateForRun x s c =
     (case validator_Struct x s c of
        Some msg \<Rightarrow> (s, Some (ValidationError msg))
      | None \<Rightarrow>
          (let tot = TotalInstances (Global c);
               (s', cum) = calculate_instances x tot (Groups c) s 0
           in if tot \<noteq> cum then (s', Some (InstanceCountMismatch tot cum))
              else (s', Groups_Validate s' (Groups c))))"

section \<open>Defaults: ApplyDefaults, PrepareForBuild, PrepareForRun\<close>

text \<open>Dependencies.AsMap: \<^verbatim>\<open>for _, dep := range d { m[dep.Module] = dep.Version }\<close>.\<close>

fun AsMap_loop :: "Dependency list \<Rightarrow> StringMap \<Rightarrow> StringMap" where
  "AsMap_loop [] m = m"
| "AsMap_loop (dep # d) m = AsMap_loop d (AList.update (Module dep) (Version dep) m)"

definition AsMap :: "Dependency list \<Rightarrow> StringMap" where
  "AsMap d = AsMap_loop d []"

text \<open>
  The loop of ApplyDefaults over \<^verbatim>\<open>defaults.AsMap()\<close>: a default module that the
  receiver does not name is appended as \<^verbatim>\<open>Dependency{Module: mod, Version: ver}\<close>; the
  literal leaves \<^verbatim>\<open>Target\<close> empty.
\<close>

fun ApplyDefaults_loop :: "StringMap \<Rightarrow> StringMap \<Rightarrow> Dependency list \<Rightarrow> Dependency list" where
  "ApplyDefaults_loop into [] ret = ret"
| "ApplyDefaults_loop into ((modl, ver) # rest) ret =
     ApplyDefaults_loop into rest
       (if map_of into modl = None
        then ret @ [\<lparr>Module = modl, Target = [], Version = ver\<rparr>]
        else ret)"

definition ApplyDefaults :: "Dependency list \<Rightarrow> Dependency list \<Rightarrow> Dependency list" where
  "ApplyDefaults d defaults =
     (if length d = 0 then defaults
      else ApplyDefaults_loop (AsMap d) (entries (AsMap defaults)) d)"

text \<open>A loop \<^verbatim>\<open>for _, grp := range c.Groups\<close> that writes through each pointer.\<close>

fun for_groups :: "(Group \<Rightarrow> Group) \<Rightarrow> addr list \<Rightarrow> store \<Rightarrow> store" where
  "for_groups f [] s = s"
| "for_groups f (a # as) s =
     for_groups f as (s\<lparr>group_at := (group_at s)(a := f (group_at s a))\<rparr>)"

text \<open>
  Applying a manifest's configuration to \<^verbatim>\<open>c.Global.BuildConfig\<close> (or \<^verbatim>\<open>RunConfig\<close>): a
  nil map is replaced by a new one, in the copy \<open>c\<close> only; an allocated one is written
  in place.
\<close>

definition apply_manifest_config :: "store \<Rightarrow> addr option \<Rightarrow> ConfigMap \<Rightarrow> store \<times> addr option" where
  "apply_manifest_config s ref bcfg =
     (let (s1, a) =
            (case ref of
               None \<Rightarrow> (s\<lparr>map_at := (map_at s)(fresh s := []), fresh := Suc (fresh s)\<rparr>, fresh s)
             | Some a \<Rightarrow> (s, a))
      in (s1\<lparr>map_at := (map_at s1)(a := copy_missing (entries bcfg) (map_at s1 a))\<rparr>, Some a))"

definition trickle_build :: "Build \<Rightarrow> Group \<Rightarrow> Group" where
  "trickle_build def grp =
     (let b1 = (Build grp)\<lparr>Dependencies :=
                  ApplyDefaults (Dependencies (Build grp)) (Dependencies def)\<rparr>;
          b2 = (if length (Selectors b1) = 0 then b1\<lparr>Selectors := Selectors def\<rparr> else b1)
      in grp\<lparr>Build := b2\<rparr>)"

definition trickle_build_config :: "ConfigMap \<Rightarrow> Group \<Rightarrow> Group" where
  "trickle_build_config gcfg grp =
     (let m = (case BuildConfig grp of None \<Rightarrow> [] | Some m \<Rightarrow> m)
      in grp\<lparr>BuildConfig := Some (copy_missing (entries gcfg) m)\<rparr>)"

text \<open>The contents of a map field of \<^verbatim>\<open>Global\<close>; a nil map has no entries.\<close>

definition global_map :: "store \<Rightarrow> addr option \<Rightarrow> ConfigMap" where
  "global_map s ref = (case ref of None \<Rightarrow> [] | Some a \<Rightarrow> map_at s a)"

text \<open>
  The blocks of PrepareForBuild, under the comments that head them in the source:
  ``Apply manifest-mandated build configuration'', ``Trickle global build defaults to
  groups, if any'' and ``Trickle global build config to groups, if any''.
\<close>

definition apply_builder_config ::
  "store \<Rightarrow> Composition \<Rightarrow> TestPlanManifest \<Rightarrow> store \<times> Composition" where
  "apply_builder_config s c manifest =
     (case map_of (Builders manifest) (Builder (Global c)) of
        Some bcfg \<Rightarrow>
          (let (s', r) = apply_manifest_config s (Global_BuildConfig (Global c)) bcfg
           in (s', c\<lparr>Global := (Global c)\<lparr>Global_BuildConfig := r\<rparr>\<rparr>))
      | None \<Rightarrow> (s, c))"

definition trickle_build_defaults :: "store \<Rightarrow> Composition \<Rightarrow> store" where
  "trickle_build_defaults s c =
     (case Global_Build (Global c) of
        Some def \<Rightarrow> for_groups (trickle_build def) (Groups c) s
      | None \<Rightarrow> s)"

definition trickle_global_build_config :: "store \<Rightarrow> Composition \<Rightarrow> store" where
  "trickle_global_build_config s c =
     (let gcfg = global_map s (Global_BuildConfig (Global c))
      in if map_len gcfg > 0 then for_groups (trickle_build_config gcfg) (Groups c) s else s)"

text \<open>
  PrepareForBuild. The receiver \<open>c\<close> is a copy of the caller's struct; the store is the
  caller's. The result is the store after the call and the returned composition.
\<close>

definition PrepareForBuild ::
  "store \<Rightarrow> Composition \<Rightarrow> TestPlanManifest \<Rightarrow> store \<times> Composition result" where
  "PrepareForBuild s c manifest =
     (let c1 = c\<lparr>Global := (Global c)\<lparr>Plan := Name manifest\<rparr>\<rparr>;
          builders = sort (map fst (entries (Builders manifest)))
      in if map_len (Builders manifest) = 0 then (s, Err NoBuildersSupported)
         else if SearchStrings builders (Builder (Global c1)) = length builders
         then (s, Err (UnsupportedBuilder (Builder (Global c1)) builders))
         else
           (let (s2, c2) = apply_builder_config s c1 manifest;
                s3 = trickle_build_defaults s2 c2;
                s4 = trickle_global_build_config s3 c2
            in (s4, Ok c2)))"

text \<open>
  Modelled from the spec: \<^verbatim>\<open>TestPlanManifest.TestCaseByName\<close>, of pkg/api, is not in the
  sources. The spec: ``Resolve the test case by name; fail TestCaseNotFound on miss.''
\<close>

definition TestCaseByName :: "TestPlanManifest \<Rightarrow> string \<Rightarrow> TestCase option" where
  "TestCaseByName manifest name = find (\<lambda>tc. tc_Name tc = name) (TestCases manifest)"

text \<open>The closure \<^verbatim>\<open>trickleMap(from, to)\<close> of PrepareForRun.\<close>

definition trickleMap :: "StringMap option \<Rightarrow> StringMap option \<Rightarrow> StringMap option" where
  "trickleMap from to =
     (let src = entries (case from of None \<Rightarrow> [] | Some m \<Rightarrow> m)
      in case to of
           None \<Rightarrow> Some (copy_all src [])
         | Some t \<Rightarrow> Some (copy_missing src t))"

definition trickle_run :: "Run \<Rightarrow> Group \<Rightarrow> Group" where
  "trickle_run def grp =
     (let r1 = (if Artifact (Run grp) = [] then (Run grp)\<lparr>Artifact := Artifact def\<rparr>
                else Run grp);
          r2 = r1\<lparr>TestParams := trickleMap (TestParams def) (TestParams r1)\<rparr>;
          r3 = r2\<lparr>Profiles := trickleMap (Profiles def) (Profiles r2)\<rparr>
      in grp\<lparr>Run := r3\<rparr>)"

text \<open>
  The defaults of the test case's parameters: a string passes through, any other value
  is marshalled to JSON; a failure of \<^verbatim>\<open>json.Marshal\<close> ends PrepareForRun.
\<close>

fun parameter_defaults ::
  "Extern \<Rightarrow> (string \<times> Parameter) list \<Rightarrow> StringMap \<Rightarrow> error + StringMap" where
  "parameter_defaults x [] defaults = Inr defaults"
| "parameter_defaults x ((n, v) # ps) defaults =
     (case Default v of
        AString dv \<Rightarrow> parameter_defaults x ps (AList.update n dv defaults)
      | d \<Rightarrow>
          (case json_Marshal x d of
             None \<Rightarrow> Inl (ParameterMarshalError n)
           | Some data \<Rightarrow> parameter_defaults x ps (AList.update n data defaults)))"

definition apply_parameter_defaults :: "StringMap \<Rightarrow> Group \<Rightarrow> Group" where
  "apply_parameter_defaults defaults g =
     (let m = (case TestParams (Run g) of None \<Rightarrow> [] | Some m \<Rightarrow> m)
      in g\<lparr>Run := (Run g)\<lparr>TestParams := Some (copy_missing (entries defaults) m)\<rparr>\<rparr>)"

text \<open>
  The blocks of PrepareForRun: ``Apply manifest-mandated run configuration'' and
  ``Trickle global run defaults to groups, if any''.
\<close>

definition apply_runner_config ::
  "store \<Rightarrow> Composition \<Rightarrow> TestPlanManifest \<Rightarrow> store \<times> Composition" where
  "apply_runner_config s c manifest =
     (case map_of (Runners manifest) (Runner (Global c)) of
        Some rcfg \<Rightarrow>
          (let (s', r) = apply_manifest_config s (Global_RunConfig (Global c)) rcfg
           in (s', c\<lparr>Global := (Global c)\<lparr>Global_RunConfig := r\<rparr>\<rparr>))
      | None \<Rightarrow> (s, c))"

definition trickle_run_defaults :: "store \<Rightarrow> Composition \<Rightarrow> store" where
  "trickle_run_defaults s c =
     (case Global_Run (Global c) of
        Some def \<Rightarrow> for_groups (trickle_run def) (Groups c) s
      | None \<Rightarrow> s)"

definition PrepareForRun ::
  "Extern \<Rightarrow> store \<Rightarrow> Composition \<Rightarrow> TestPlanManifest \<Rightarrow> store \<times> Composition result" where
  "PrepareForRun x s c manifest =
     (let c1 = c\<lparr>Global := (Global c)\<lparr>Plan := Name manifest\<rparr>\<rparr>;
          runners = sort (map fst (entries (Runners manifest)))
      in case TestCaseByName manifest (Case (Global c1)) of
           None \<Rightarrow> (s, Err (TestCaseNotFound (Case (Global c1)) (Name manifest)))
         | Some tcase \<Rightarrow>
             if map_len (Runners manifest) = 0 then (s, Err NoRunnersSupported)
             else if SearchStrings runners (Runner (Global c1)) = length runners
             then (s, Err (UnsupportedRunner (Runner (Global c1)) runners))
             else
               (let (s2, c2) = apply_runner_config s c1 manifest;
                    t = sint (TotalInstances (Global c2))
                in if t < Minimum (tc_Instances tcase) \<or> t > Maximum (tc_Instances tcase)
                   then (s2, Err (InstanceCountOutOfRange t (Minimum (tc_Instances tcase))
                                    (Maximum (tc_Instances tcase)) (tc_Name tcase)))
                   else
                     (let s3 = trickle_run_defaults s2 c2
                      in case parameter_defaults x (entries (Parameters tcase)) [] of
                           Inl e \<Rightarrow> (s3, Err e)
                         | Inr defaults \<Rightarrow>
                             (for_groups (apply_parameter_defaults defaults) (Groups c2) s3,
                              Ok c2))))"

section \<open>PickGroups\<close>

text \<open>The first loop: \<^verbatim>\<open>if i >= len(c.Groups) { return ..., invalid group index }\<close>.\<close>

fun check_indices :: "nat \<Rightarrow> int list \<Rightarrow> error option" where
  "check_indices n [] = None"
| "check_indices n (i # rest) =
     (if i \<ge> int n then Some (InvalidGroupIndex i) else check_indices n rest)"

text \<open>
  The second loop: \<^verbatim>\<open>grps = append(grps, c.Groups[i])\<close>. The index expression panics
  when \<open>i\<close> is negative or not below the length.
\<close>

fun append_groups :: "addr list \<Rightarrow> int list \<Rightarrow> addr list \<Rightarrow> addr list result" where
  "append_groups gs [] grps = Ok grps"
| "append_groups gs (i # rest) grps =
     (if i < 0 \<or> i \<ge> int (length gs) then Panic (IndexOutOfRange i)
      else append_groups gs rest (grps @ [gs ! nat i]))"

definition PickGroups :: "Composition \<Rightarrow> int list \<Rightarrow> Composition result" where
  "PickGroups c indices =
     (case check_indices (length (Groups c)) indices of
        Some e \<Rightarrow> Err e
      | None \<Rightarrow>
          (case append_groups (Groups c) indices [] of
             Ok grps \<Rightarrow> Ok (c\<lparr>Groups := grps\<rparr>)
           | Err e \<Rightarrow> Err e
           | Panic p \<Rightarrow> Panic p))"

section \<open>The supervisor (pkg/engine/supervisor.go)\<close>

subsection \<open>Plugins and the engine\<close>

text \<open>
  What \<^verbatim>\<open>Healthcheck(ctx, e, ow, true)\<close> returns: an error, or a report that answers
  \<^verbatim>\<open>FixesSucceeded()\<close> and \<^verbatim>\<open>ChecksSucceeded()\<close>.
\<close>

datatype healthcheck = HealthcheckError string | HealthcheckReport bool bool

record EnvConfig =
  env_Builders :: "(string \<times> ConfigMap) list"
  env_Runners :: "(string \<times> ConfigMap) list"
  SlackWebhookURL :: string

record DependencyTarget =
  dt_Target :: string
  dt_Version :: string

record api_BuildInput =
  BuildID :: string
  bi_EnvConfig :: EnvConfig
  bi_TestPlan :: string
  bi_Selectors :: "string list"
  bi_Dependencies :: "(string \<times> DependencyTarget) list"
  bi_BuildConfig :: any
  bi_UnpackedSources :: UnpackedSources

record BuildOutput =
  BuilderID :: string
  ArtifactPath :: string

text \<open>
  A builder: \<^verbatim>\<open>ID()\<close>, \<^verbatim>\<open>ConfigType()\<close>, \<^verbatim>\<open>Build(ctx, in, ow)\<close> with its two results (the
  output pointer and the error), and the outcome of its healthcheck when it implements
  \<^verbatim>\<open>api.Healthchecker\<close>.
\<close>

record BuilderPlugin =
  b_ID :: string
  b_ConfigType :: string
  b_Build :: "api_BuildInput \<Rightarrow> BuildOutput option \<times> string option"
  b_Healthcheck :: "healthcheck option"

record RunGroup =
  rg_ID :: string
  rg_Instances :: int
  rg_ArtifactPath :: string
  rg_Parameters :: "StringMap option"
  rg_Resources :: Resources

record api_RunInput =
  RunID :: string
  ri_EnvConfig :: EnvConfig
  RunnerConfig :: any
  ri_TestPlan :: string
  ri_TestCase :: string
  ri_TotalInstances :: int
  ri_Groups :: "RunGroup list"

record RunnerPlugin =
  r_ID :: string
  r_ConfigType :: string
  r_Run :: "api_RunInput \<Rightarrow> string option \<times> string option"
  r_Healthcheck :: "healthcheck option"

record Engine =
  builders :: "(string \<times> BuilderPlugin) list"
  runners :: "(string \<times> RunnerPlugin) list"
  envcfg :: EnvConfig

record BuildInput =
  build_Composition :: Composition
  build_Manifest :: TestPlanManifest
  build_Sources :: UnpackedSources

record RunInput =
  run_Composition :: Composition
  run_Manifest :: TestPlanManifest
  BuildGroups :: "int list"
  run_Sources :: UnpackedSources

record RunOutput =
  out_RunID :: string
  out_Composition :: Composition

text \<open>The healthcheck block of doBuild and doRun: the error it returns with, if any.\<close>

definition healthcheck_gate :: "healthcheck option \<Rightarrow> error option" where
  "healthcheck_gate hc =
     (case hc of
        None \<Rightarrow> None
      | Some (HealthcheckError msg) \<Rightarrow> Some (HealthcheckErrored msg)
      | Some (HealthcheckReport fixes checks) \<Rightarrow>
          (if \<not> fixes then Some HealthcheckFixesFailed else None))"

subsection \<open>doBuild\<close>

text \<open>
  \<^verbatim>\<open>for idx, g := range comp.Groups { k := g.Build.BuildKey(); uniq[k] = append(uniq[k], idx) }\<close>
\<close>

fun index_groups :: "Build list \<Rightarrow> nat \<Rightarrow> (string \<times> nat list) list \<Rightarrow> (string \<times> nat list) list" where
  "index_groups [] idx uniq = uniq"
| "index_groups (b # bs) idx uniq =
     index_groups bs (Suc idx)
       (AList.update (BuildKey b)
          ((case map_of uniq (BuildKey b) of None \<Rightarrow> [] | Some l \<Rightarrow> l) @ [idx]) uniq)"

text \<open>The source trees: the original for a single build, else one copy per build.\<close>

fun duplicate_loop ::
  "Extern \<Rightarrow> UnpackedSources \<Rightarrow> nat \<Rightarrow> nat \<Rightarrow> UnpackedSources list \<Rightarrow> string + UnpackedSources list" where
  "duplicate_loop x sources i 0 acc = Inr acc"
| "duplicate_loop x sources i (Suc n) acc =
     (case duplicate_sources x sources i of
        Inl msg \<Rightarrow> Inl msg
      | Inr src \<Rightarrow> duplicate_loop x sources (Suc i) n (acc @ [src]))"

definition final_sources :: "Extern \<Rightarrow> UnpackedSources \<Rightarrow> nat \<Rightarrow> string + UnpackedSources list" where
  "final_sources x sources uniqcnt =
     (if uniqcnt = 1 then Inr [sources] else duplicate_loop x sources 0 uniqcnt [])"

text \<open>\<^verbatim>\<open>for _, dep := range grp.Build.Dependencies { deps[dep.Module] = DependencyTarget{...} }\<close>\<close>

fun dependency_targets ::
  "Dependency list \<Rightarrow> (string \<times> DependencyTarget) list \<Rightarrow> (string \<times> DependencyTarget) list" where
  "dependency_targets [] deps = deps"
| "dependency_targets (dep # ds) deps =
     dependency_targets ds
       (AList.update (Module dep) \<lparr>dt_Target = Target dep, dt_Version = Version dep\<rparr> deps)"

text \<open>\<^verbatim>\<open>for _, idx := range uniq[key] { ress[idx] = res }\<close>\<close>

fun write_results :: "nat list \<Rightarrow> BuildOutput \<Rightarrow> BuildOutput option list \<Rightarrow> BuildOutput option list" where
  "write_results [] res ress = ress"
| "write_results (idx # idxs) res ress = write_results idxs res (ress[idx := Some res])"

text \<open>The struct literal \<^verbatim>\<open>in := &api.BuildInput{...}\<close> of a build fiber.\<close>

definition build_input ::
  "Extern \<Rightarrow> Engine \<Rightarrow> Composition \<Rightarrow> any \<Rightarrow> UnpackedSources \<Rightarrow> nat \<Rightarrow> Group \<Rightarrow> api_BuildInput" where
  "build_input x e cmp obj src cnt grp =
     \<lparr>BuildID = uuid_New x cnt,
      bi_EnvConfig = envcfg e,
      bi_TestPlan = Plan (Global cmp),
      bi_Selectors = Selectors (Build grp),
      bi_Dependencies = dependency_targets (Dependencies (Build grp)) [],
      bi_BuildConfig = obj,
      bi_UnpackedSources = src\<rparr>"

text \<open>
  One build fiber, the function handed to \<^verbatim>\<open>errgrp.Go\<close>, for the \<open>cnt\<close>-th entry
  \<open>(key, idxs)\<close> of \<open>uniq\<close>. It yields the input it passed to \<^verbatim>\<open>bm.Build\<close>, if it got
  that far, what it returned (\<open>Ok\<close> for nil), and the result slice after its writes. The
  indexing of \<^verbatim>\<open>finalSources\<close>, \<^verbatim>\<open>idxs\<close> and \<^verbatim>\<open>comp.Groups\<close> panics out of range, and so
  does \<^verbatim>\<open>res.BuilderID = bm.ID()\<close> on a nil \<open>res\<close>.
\<close>

definition build_fiber ::
  "Extern \<Rightarrow> Engine \<Rightarrow> BuilderPlugin \<Rightarrow> store \<Rightarrow> Composition \<Rightarrow> any \<Rightarrow> UnpackedSources list
   \<Rightarrow> nat \<Rightarrow> nat list \<Rightarrow> BuildOutput option list
   \<Rightarrow> api_BuildInput option \<times> unit result \<times> BuildOutput option list" where
  "build_fiber x e bm s cmp obj finalSources cnt idxs ress =
     (if cnt \<ge> length finalSources then (None, Panic (IndexOutOfRange (int cnt)), ress)
      else case idxs of
        [] \<Rightarrow> (None, Panic (IndexOutOfRange 0), ress)
      | i0 # _ \<Rightarrow>
          if i0 \<ge> length (Groups cmp) then (None, Panic (IndexOutOfRange (int i0)), ress)
          else
            (let grp = group_at s (Groups cmp ! i0);
                 inp = build_input x e cmp obj (finalSources ! cnt) cnt grp
             in case b_Build bm inp of
                  (_, Some msg) \<Rightarrow> (Some inp, Err (PluginError msg), ress)
                | (None, None) \<Rightarrow> (Some inp, Panic NilDereference, ress)
                | (Some res, None) \<Rightarrow>
                    (Some inp, Ok (), write_results idxs (res\<lparr>BuilderID := b_ID bm\<rparr>) ress)))"

text \<open>
  The loop \<^verbatim>\<open>for key, idxs := range uniq\<close> that starts the fibers. The fibers write
  disjoint indices of \<open>ress\<close> and share nothing else, so the model runs them one after
  the other, in the order they are started; it keeps each fiber's input and result.
\<close>

fun start_fibers ::
  "(nat \<Rightarrow> nat list \<Rightarrow> BuildOutput option list
      \<Rightarrow> api_BuildInput option \<times> unit result \<times> BuildOutput option list)
   \<Rightarrow> (string \<times> nat list) list \<Rightarrow> nat \<Rightarrow> BuildOutput option list
   \<Rightarrow> (api_BuildInput option \<times> unit result) list \<times> BuildOutput option list" where
  "start_fibers fiber [] cnt ress = ([], ress)"
| "start_fibers fiber ((key, idxs) # rest) cnt ress =
     (case fiber cnt idxs ress of
        (inp, r, ress') \<Rightarrow>
          (case start_fibers fiber rest (Suc cnt) ress' of
             (done, ress'') \<Rightarrow> ((inp, r) # done, ress'')))"

text \<open>
  \<^verbatim>\<open>errgrp.Wait()\<close> returns the error of the fiber that failed first. The fibers finish
  in the order \<open>finish_order\<close> lists them; a fiber it does not list finishes after the
  listed ones, in starting order.
\<close>

fun first_error :: "nat list \<Rightarrow> unit result list \<Rightarrow> error option" where
  "first_error [] rs = None"
| "first_error (i # order) rs =
     (if i < length rs
      then (case rs ! i of Err e \<Rightarrow> Some e | _ \<Rightarrow> first_error order rs)
      else first_error order rs)"

fun first_panic :: "unit result list \<Rightarrow> panic option" where
  "first_panic [] = None"
| "first_panic (Panic p # rs) = Some p"
| "first_panic (r # rs) = first_panic rs"

text \<open>The inputs \<^verbatim>\<open>bm.Build\<close> was called with, in starting order.\<close>

fun build_calls :: "(api_BuildInput option \<times> unit result) list \<Rightarrow> api_BuildInput list" where
  "build_calls [] = []"
| "build_calls ((None, r) # done) = build_calls done"
| "build_calls ((Some inp, r) # done) = inp # build_calls done"

text \<open>
  doBuild from the partition of the groups on: the source trees, the fibers, the wait.
\<close>

definition fan_out ::
  "Extern \<Rightarrow> Engine \<Rightarrow> BuilderPlugin \<Rightarrow> store \<Rightarrow> Composition \<Rightarrow> any \<Rightarrow> UnpackedSources
   \<Rightarrow> api_BuildInput list \<times> BuildOutput option list result" where
  "fan_out x e bm s cmp obj sources =
     (let ress = replicate (length (Groups cmp)) None;
          uniq = index_groups (map (\<lambda>a. Build (group_at s a)) (Groups cmp)) 0 []
      in case final_sources x sources (map_len uniq) of
           Inl msg \<Rightarrow> ([], Err (SourceCopyError msg))
         | Inr finalSources \<Rightarrow>
             (case start_fibers (build_fiber x e bm s cmp obj finalSources)
                     (range_order x (entries uniq)) 0 ress of
                (done, ress') \<Rightarrow>
                  (build_calls done,
                   case first_panic (map snd done) of
                     Some p \<Rightarrow> Panic p
                   | None \<Rightarrow>
                       (case first_error (finish_order x @ [0..<length done]) (map snd done) of
                          Some err \<Rightarrow> Err err
                        | None \<Rightarrow> Ok ress'))))"

text \<open>
  doBuild. The result: the store after the call, the inputs \<^verbatim>\<open>bm.Build\<close> was called
  with, and what doBuild returns.
\<close>

definition doBuild ::
  "Extern \<Rightarrow> Engine \<Rightarrow> store \<Rightarrow> BuildInput
   \<Rightarrow> store \<times> api_BuildInput list \<times> BuildOutput option list result" where
  "doBuild x e s input =
     (case PrepareForBuild s (build_Composition input) (build_Manifest input) of
        (s1, Err err) \<Rightarrow> (s1, [], Err err)
      | (s1, Panic p) \<Rightarrow> (s1, [], Panic p)
      | (s1, Ok cmp) \<Rightarrow>
          (case ValidateForBuild x s1 cmp of
             Some err \<Rightarrow> (s1, [], Err (InvalidComposition err))
           | None \<Rightarrow>
               (case map_of (builders e) (Builder (Global cmp)) of
                  None \<Rightarrow> (s1, [], Err (UnrecognizedBuilder (Builder (Global cmp))))
                | Some bm \<Rightarrow>
                    (case healthcheck_gate (b_Healthcheck bm) of
                       Some err \<Rightarrow> (s1, [], Err err)
                     | None \<Rightarrow>
                         (case CoalesceIntoType x
                                 [map_of (env_Builders (envcfg e)) (Builder (Global cmp)),
                                  map_option (map_at s1) (Global_BuildConfig (Global cmp))]
                                 (b_ConfigType bm) of
                            Inl msg \<Rightarrow> (s1, [], Err (CoalesceError msg))
                          | Inr obj \<Rightarrow>
                              (case fan_out x e bm s1 cmp obj (build_Sources input) of
                                 (calls, r) \<Rightarrow> (s1, calls, r)))))))"

subsection \<open>doRun\<close>

text \<open>
  \<^verbatim>\<open>for i, groupIdx := range input.BuildGroups { g := input.Composition.Groups[groupIdx]; g.Run.Artifact = bout[i].ArtifactPath }\<close>
\<close>

fun write_artifacts ::
  "addr list \<Rightarrow> int list \<Rightarrow> nat \<Rightarrow> BuildOutput option list \<Rightarrow> store \<Rightarrow> store result" where
  "write_artifacts gs [] i bout s = Ok s"
| "write_artifacts gs (groupIdx # rest) i bout s =
     (if groupIdx < 0 \<or> groupIdx \<ge> int (length gs) then Panic (IndexOutOfRange groupIdx)
      else if i \<ge> length bout then Panic (IndexOutOfRange (int i))
      else case bout ! i of
             None \<Rightarrow> Panic NilDereference
           | Some b \<Rightarrow>
               (let a = gs ! nat groupIdx;
                    g = group_at s a;
                    g' = g\<lparr>Run := (Run g)\<lparr>Artifact := ArtifactPath b\<rparr>\<rparr>
                in write_artifacts gs rest (Suc i) bout (s\<lparr>group_at := (group_at s)(a := g')\<rparr>)))"

text \<open>The block \<^verbatim>\<open>if len(input.BuildGroups) > 0 { ... }\<close> that opens doRun.\<close>

definition prebuild ::
  "Extern \<Rightarrow> Engine \<Rightarrow> store \<Rightarrow> RunInput \<Rightarrow> store \<times> api_BuildInput list \<times> unit result" where
  "prebuild x e s input =
     (if length (BuildGroups input) > 0
      then (case PickGroups (run_Composition input) (BuildGroups input) of
              Err err \<Rightarrow> (s, [], Err err)
            | Panic p \<Rightarrow> (s, [], Panic p)
            | Ok bcomp \<Rightarrow>
                (case doBuild x e s \<lparr>build_Composition = bcomp,
                                      build_Manifest = run_Manifest input,
                                      build_Sources = run_Sources input\<rparr> of
                   (s1, calls, Err err) \<Rightarrow> (s1, calls, Err err)
                 | (s1, calls, Panic p) \<Rightarrow> (s1, calls, Panic p)
                 | (s1, calls, Ok bout) \<Rightarrow>
                     (case write_artifacts (Groups (run_Composition input)) (BuildGroups input)
                             0 bout s1 of
                        Ok s2 \<Rightarrow> (s2, calls, Ok ())
                      | Err err \<Rightarrow> (s1, calls, Err err)
                      | Panic p \<Rightarrow> (s1, calls, Panic p))))
      else (s, [], Ok ()))"

definition run_group :: "Group \<Rightarrow> RunGroup" where
  "run_group grp =
     \<lparr>rg_ID = ID grp,
      rg_Instances = sint (calculatedInstanceCnt grp),
      rg_ArtifactPath = Artifact (Run grp),
      rg_Parameters = TestParams (Run grp),
      rg_Resources = Resources grp\<rparr>"

text \<open>
  doRun. \<^verbatim>\<open>run := e.runners[runner]\<close> is the nil interface when the runner is not
  registered: the type assertion \<^verbatim>\<open>run.(api.Healthchecker)\<close> then answers false, and the
  method call \<^verbatim>\<open>run.ConfigType()\<close> panics. The result: the store after the call, the
  inputs \<^verbatim>\<open>Build\<close> was called with, and what doRun returns.
\<close>

definition doRun ::
  "Extern \<Rightarrow> Engine \<Rightarrow> store \<Rightarrow> string \<Rightarrow> RunInput
   \<Rightarrow> store \<times> api_BuildInput list \<times> RunOutput result" where
  "doRun x e s run_id input =
     (case prebuild x e s input of
        (s1, calls, Err err) \<Rightarrow> (s1, calls, Err err)
      | (s1, calls, Panic p) \<Rightarrow> (s1, calls, Panic p)
      | (s1, calls, Ok u) \<Rightarrow>
          (case PrepareForRun x s1 (run_Composition input) (run_Manifest input) of
             (s2, Err err) \<Rightarrow> (s2, calls, Err err)
           | (s2, Panic p) \<Rightarrow> (s2, calls, Panic p)
           | (s2, Ok cmp) \<Rightarrow>
               (case ValidateForRun x s2 cmp of
                  (s3, Some err) \<Rightarrow> (s3, calls, Err err)
                | (s3, None) \<Rightarrow>
                    (let run = map_of (runners e) (Runner (Global cmp)) in
                     case healthcheck_gate (case run of None \<Rightarrow> None | Some r \<Rightarrow> r_Healthcheck r) of
                       Some err \<Rightarrow> (s3, calls, Err err)
                     | None \<Rightarrow>
                         (case run of
                            None \<Rightarrow> (s3, calls, Panic NilDereference)
                          | Some r \<Rightarrow>
                              (case CoalesceIntoType x
                                      [map_of (env_Runners (envcfg e)) (Runner (Global cmp)),
                                       map_option (map_at s3) (Global_RunConfig (Global cmp))]
                                      (r_ConfigType r) of
                                 Inl msg \<Rightarrow> (s3, calls, Err (CoalesceError msg))
                               | Inr obj \<Rightarrow>
                                   (let inp = \<lparr>RunID = run_id,
                                               ri_EnvConfig = envcfg e,
                                               RunnerConfig = obj,
                                               ri_TestPlan = Plan (Global cmp),
                                               ri_TestCase = Case (Global cmp),
                                               ri_TotalInstances = sint (TotalInstances (Global cmp)),
                                               ri_Groups = map (\<lambda>a. run_group (group_at s3 a)) (Groups cmp)\<rparr>
                                    in case r_Run r inp of
                                         (out, Some msg) \<Rightarrow> (s3, calls, Err (PluginError msg))
                                       | (None, None) \<Rightarrow> (s3, calls, Panic NilDereference)
                                       | (Some rid, None) \<Rightarrow>
                                           (s3, calls,
                                            Ok \<lparr>out_RunID = rid,
                                                out_Composition = run_Composition input\<rparr>))))))))"

subsection \<open>The worker\<close>

datatype task_type = TypeRun | TypeBuild | TypeUnknown

datatype task_input = RunTaskInput RunInput | BuildTaskInput BuildInput

record Task =
  task_ID :: string
  task_Type :: task_type
  task_Input :: task_input

datatype task_state = StateScheduled | StateProcessing | StateComplete | StateCanceled

datatype task_data =
    NoData
  | RunData "RunOutput option"
  | BuildData "BuildOutput option list option"

text \<open>What one task makes the worker do to the task store, the signal map and the log.\<close>

datatype event =
    AddSignal string
  | AppendTaskState string task_state
  | OpenFile string
  | MarkCompleted string "error option" task_data
  | PostStatusToSlack string task_state
  | DeleteSignal string
  | CloseFile string

text \<open>
  Whether the calls of the worker into the store, the file system and the webhook fail.
  The worker logs the failure of each but \<^verbatim>\<open>os.OpenFile\<close>'s, after which it returns.
\<close>

record TaskIO =
  AppendTaskState_fails :: bool
  OpenFile_fails :: bool
  MarkCompleted_fails :: bool
  postStatusToSlack_fails :: bool

text \<open>The \<^verbatim>\<open>switch tsk.Type\<close>: \<open>data\<close> and \<open>err\<close> after it, or the panic that left it.\<close>

definition dispatch ::
  "Extern \<Rightarrow> Engine \<Rightarrow> store \<Rightarrow> Task \<Rightarrow> store \<times> (panic + task_data \<times> error option)" where
  "dispatch x e s tsk =
     (case task_Type tsk of
        TypeRun \<Rightarrow>
          (case task_Input tsk of
             RunTaskInput input \<Rightarrow>
               (case doRun x e s (task_ID tsk) input of
                  (s', calls, Ok out) \<Rightarrow> (s', Inr (RunData (Some out), None))
                | (s', calls, Err err) \<Rightarrow> (s', Inr (RunData None, Some err))
                | (s', calls, Panic p) \<Rightarrow> (s', Inl p))
           | BuildTaskInput input \<Rightarrow> (s, Inl TypeAssertion))
      | TypeBuild \<Rightarrow>
          (case task_Input tsk of
             BuildTaskInput input \<Rightarrow>
               (case doBuild x e s input of
                  (s', calls, Ok ress) \<Rightarrow> (s', Inr (BuildData (Some ress), None))
                | (s', calls, Err err) \<Rightarrow> (s', Inr (BuildData None, Some err))
                | (s', calls, Panic p) \<Rightarrow> (s', Inl p))
           | RunTaskInput input \<Rightarrow> (s, Inl TypeAssertion))
      | TypeUnknown \<Rightarrow> (s, Inr (NoData, None)))"

text \<open>
  The closure the worker runs for a task it popped, as the sequence of its calls. The
  fiber that turns a signal into the cancellation of the context is not part of the
  sequence. A panic unwinds through the deferred \<^verbatim>\<open>f.Close()\<close>.
\<close>

definition process_task ::
  "Extern \<Rightarrow> Engine \<Rightarrow> TaskIO \<Rightarrow> store \<Rightarrow> Task \<Rightarrow> store \<times> event list \<times> panic option" where
  "process_task x e io s tsk =
     (let tid = task_ID tsk;
          file = tid @ ''.out'';
          started = [AddSignal tid, AppendTaskState tid StateProcessing, OpenFile file]
      in if OpenFile_fails io then (s, started, None)
         else case dispatch x e s tsk of
                (s', Inl p) \<Rightarrow> (s', started @ [CloseFile file], Some p)
              | (s', Inr (data, err)) \<Rightarrow>
                  (s', started @ [MarkCompleted tid err data,
                                  PostStatusToSlack tid StateComplete,
                                  DeleteSignal tid,
                                  CloseFile file], None))"

fun is_MarkCompleted :: "event \<Rightarrow> bool" where
  "is_MarkCompleted (MarkCompleted tid err data) = True"
| "is_MarkCompleted ev = False"

section \<open>What the specification says, for comparison with the code\<close>

text \<open>
  The instance count of a group in the specification's words: ``from \<^verbatim>\<open>count\<close>
  verbatim, else \<^verbatim>\<open>round(percentage * total_instances)\<close>'', the rounding being the
  parameter \<open>round_percentage\<close>.
\<close>

definition instance_count :: "Extern \<Rightarrow> uint \<Rightarrow> Group \<Rightarrow> uint" where
  "instance_count x tot g =
     (if Count (Instances g) \<noteq> 0 then Count (Instances g)
      else round_percentage x (Percentage (Instances g)) tot)"

text \<open>
  What the key of a build is meant to identify, a dependency's module and version; and
  the dependency lists in which no module name holds the \<open>:\<close> (\<open>colon_free\<close>), no version
  holds the \<open>|\<close> (\<open>bar_free\<close>) that BuildKey writes between them, or both (\<open>plain_names\<close>).
\<close>

definition module_version :: "Dependency \<Rightarrow> string \<times> string" where
  "module_version d = (Module d, Version d)"

definition plain_names :: "Dependency list \<Rightarrow> bool" where
  "plain_names ds =
     list_all (\<lambda>d. CHR '':'' \<notin> set (Module d) \<and> CHR ''|'' \<notin> set (Version d)) ds"

definition colon_free :: "Dependency list \<Rightarrow> bool" where
  "colon_free ds = list_all (\<lambda>d. CHR '':'' \<notin> set (Module d)) ds"

definition bar_free :: "Dependency list \<Rightarrow> bool" where
  "bar_free ds = list_all (\<lambda>d. CHR ''|'' \<notin> set (Version d)) ds"

text \<open>
  Reading a map that may be nil, preferring a value that is set to a default, and the
  defaults in the specification's words: the test parameters of the global run defaults,
  and the default of a test case's parameter (``strings pass through verbatim; all other
  JSON-valued defaults are encoded as their JSON textual form'').
\<close>

definition lookup :: "('k \<times> 'v) list option \<Rightarrow> 'k \<Rightarrow> 'v option" where
  "lookup m k = (case m of None \<Rightarrow> None | Some al \<Rightarrow> map_of al k)"

definition or_default :: "'v option \<Rightarrow> 'v option \<Rightarrow> 'v option" where
  "or_default own dflt = (case own of Some v \<Rightarrow> Some v | None \<Rightarrow> dflt)"

definition global_test_params :: "Composition \<Rightarrow> StringMap option" where
  "global_test_params c =
     (case Global_Run (Global c) of None \<Rightarrow> None | Some def \<Rightarrow> TestParams def)"

definition manifest_default :: "Extern \<Rightarrow> TestCase \<Rightarrow> string \<Rightarrow> string option" where
  "manifest_default x tcase k =
     (case map_of (Parameters tcase) k of
        None \<Rightarrow> None
      | Some p \<Rightarrow> (case Default p of AString dv \<Rightarrow> Some dv | d \<Rightarrow> json_Marshal x d))"

text \<open>The dependency ApplyDefaults appends for an entry of \<^verbatim>\<open>defaults.AsMap()\<close>.\<close>

definition default_dependency :: "string \<times> string \<Rightarrow> Dependency" where
  "default_dependency p = \<lparr>Module = fst p, Target = [], Version = snd p\<rparr>"

text \<open>
  The build blocks of a composition's groups, in order, and the representatives of their
  equivalence classes: the positions whose key no earlier position has.
\<close>

definition group_builds :: "store \<Rightarrow> Composition \<Rightarrow> Build list" where
  "group_builds s c = map (\<lambda>a. Build (group_at s a)) (Groups c)"

definition representatives :: "Build list \<Rightarrow> nat list" where
  "representatives bs =
     filter (\<lambda>i. BuildKey (bs ! i) \<notin> BuildKey ` set (take i bs)) [0..<length bs]"

text \<open>The builder's output as doBuild stores it, and what a build returned in error.\<close>

definition stamped :: "BuilderPlugin \<Rightarrow> BuildOutput \<Rightarrow> BuildOutput" where
  "stamped bm res = res\<lparr>BuilderID := b_ID bm\<rparr>"

definition build_failed :: "BuilderPlugin \<Rightarrow> api_BuildInput \<Rightarrow> bool" where
  "build_failed bm inp = (snd (b_Build bm inp) \<noteq> None)"

text \<open>
  The equivalence class of position \<open>i\<close>: the positions with its key, in order. And the
  three things a build fiber does for the class of \<open>i\<close> as the \<open>j\<close>-th fiber started: the
  input it hands to the builder, what it returns, and what it writes.
\<close>

definition class_of :: "Build list \<Rightarrow> nat \<Rightarrow> nat list" where
  "class_of bs i = filter (\<lambda>j. BuildKey (bs ! j) = BuildKey (bs ! i)) [0..<length bs]"

definition fiber_input ::
  "Extern \<Rightarrow> Engine \<Rightarrow> store \<Rightarrow> Composition \<Rightarrow> any \<Rightarrow> UnpackedSources list \<Rightarrow> nat \<Rightarrow> nat
   \<Rightarrow> api_BuildInput" where
  "fiber_input x e s cmp obj srcs j i =
     build_input x e cmp obj (srcs ! j) j (group_at s (Groups cmp ! i))"

definition build_outcome :: "BuilderPlugin \<Rightarrow> api_BuildInput \<Rightarrow> unit result" where
  "build_outcome bm inp =
     (case b_Build bm inp of
        (res, Some msg) \<Rightarrow> Err (PluginError msg)
      | (None, None) \<Rightarrow> Panic NilDereference
      | (Some res, None) \<Rightarrow> Ok ())"

definition fiber_write ::
  "BuilderPlugin \<Rightarrow> api_BuildInput \<Rightarrow> nat list \<Rightarrow> BuildOutput option list
   \<Rightarrow> BuildOutput option list" where
  "fiber_write bm inp idxs ress =
     (case b_Build bm inp of
        (Some res, None) \<Rightarrow> write_results idxs (stamped bm res) ress
      | _ \<Rightarrow> ress)"

section \<open>Example inputs\<close>

text \<open>
  The composition and the manifest of the package's tests, cut down to one group, and
  stand-ins for the parameters of the model. \<open>tag_validator\<close> enforces the
  \<^verbatim>\<open>validate\<close> tags of \<^verbatim>\<open>Composition\<close> and \<^verbatim>\<open>Global\<close> (the tags of \<^verbatim>\<open>Global.Case\<close>,
  \<^verbatim>\<open>Global.TotalInstances\<close> and \<^verbatim>\<open>Global.Runner\<close> only for a run). The tag of
  \<^verbatim>\<open>Groups\<close> is \<^verbatim>\<open>required,gt=0\<close> without \<^verbatim>\<open>dive\<close>, so the validator does not descend
  into the groups: neither ValidateInstances nor the tags of a group's dependencies are
  run on them.
\<close>

definition no_group :: Group where
  "no_group =
     \<lparr>ID = [], Resources = \<lparr>Memory = [], CPU = []\<rparr>,
      Instances = \<lparr>Count = 0, Percentage = Finite 0\<rparr>, BuildConfig = None,
      Build = \<lparr>Selectors = [], Dependencies = []\<rparr>,
      Run = \<lparr>Artifact = [], TestParams = None, Profiles = None\<rparr>,
      calculatedInstanceCnt = 0\<rparr>"

definition example_global :: Global where
  "example_global =
     \<lparr>Plan = ''foo_plan'', Case = ''foo_case'', TotalInstances = 1,
      Builder = ''docker:go'', Global_BuildConfig = None, Global_Build = None,
      Runner = ''local:docker'', Global_RunConfig = None, Global_Run = None,
      DisableMetrics = False\<rparr>"

definition example_manifest :: TestPlanManifest where
  "example_manifest =
     \<lparr>Name = ''foo_plan'', Builders = [(''docker:go'', [])],
      Runners = [(''local:docker'', [])],
      TestCases = [\<lparr>tc_Name = ''foo_case'',
                     tc_Instances = \<lparr>Minimum = 1, Maximum = 100\<rparr>,
                     Parameters = [(''param4'',
                        \<lparr>param_Type = ''string'', Default = AString ''value4:default:manifest''\<rparr>)]\<rparr>]\<rparr>"

definition example_composition :: Composition where
  "example_composition =
     \<lparr>Metadata = \<lparr>meta_Name = [], Author = []\<rparr>, Global = example_global, Groups = [0]\<rparr>"

definition example_store :: store where
  "example_store =
     \<lparr>group_at = (\<lambda>a. no_group\<lparr>ID := ''single'',
                                   Instances := \<lparr>Count = 1, Percentage = Finite 0\<rparr>\<rparr>),
      map_at = (\<lambda>a. []), fresh = 0\<rparr>"

definition tag_validator :: "bool \<Rightarrow> store \<Rightarrow> Composition \<Rightarrow> string option" where
  "tag_validator for_run s c =
     (if Plan (Global c) = [] then Some ''Plan''
      else if Builder (Global c) = [] then Some ''Builder''
      else if Groups c = [] then Some ''Groups''
      else if for_run \<and> Case (Global c) = [] then Some ''Case''
      else if for_run \<and> TotalInstances (Global c) = 0 then Some ''TotalInstances''
      else if for_run \<and> Runner (Global c) = [] then Some ''Runner''
      else None)"

definition example_extern :: Extern where
  "example_extern =
     \<lparr>validator_Struct = tag_validator True,
      validator_StructExcept = tag_validator False,
      round_percentage = (\<lambda>p n. 0),
      json_Marshal = (\<lambda>v. None),
      CoalesceIntoType = (\<lambda>layers ty. Inr (AMap [])),
      duplicate_sources = (\<lambda>src i. Inr src),
      uuid_New = (\<lambda>n. []),
      range_order = rev,
      finish_order = []\<rparr>"

definition example_engine :: Engine where
  "example_engine =
     \<lparr>builders = [], runners = [],
      envcfg = \<lparr>env_Builders = [], env_Runners = [], SlackWebhookURL = []\<rparr>\<rparr>"

definition example_sources :: UnpackedSources where
  "example_sources = \<lparr>BaseDir = ''/src'', PlanDir = ''/src/plan'', SDKDir = [], ExtraDir = []\<rparr>"

definition example_run_input :: RunInput where
  "example_run_input =
     \<lparr>run_Composition = example_composition, run_Manifest = example_manifest,
      BuildGroups = [], run_Sources = example_sources\<rparr>"

definition example_build_input :: BuildInput where
  "example_build_input =
     \<lparr>build_Composition = example_composition, build_Manifest = example_manifest,
      build_Sources = example_sources\<rparr>"

text \<open>
  Three groups, the first two with the same selectors in a different order, and an engine
  whose \<^verbatim>\<open>docker:go\<close> builder names its artifact after the selectors it is given.
\<close>

definition fanout_build :: "addr \<Rightarrow> Build" where
  "fanout_build a =
     (if a = 0 then \<lparr>Selectors = [''x'', ''y''], Dependencies = []\<rparr>
      else if a = 1 then \<lparr>Selectors = [''y'', ''x''], Dependencies = []\<rparr>
      else \<lparr>Selectors = [''z''], Dependencies = []\<rparr>)"

definition fanout_store :: store where
  "fanout_store =
     \<lparr>group_at = (\<lambda>a. no_group\<lparr>ID := (if a = 0 then ''a'' else if a = 1 then ''b'' else ''c''),
                                   Instances := \<lparr>Count = 1, Percentage = Finite 0\<rparr>,
                                   Build := fanout_build a\<rparr>),
      map_at = (\<lambda>a. []), fresh = 0\<rparr>"

definition fanout_composition :: Composition where
  "fanout_composition =
     \<lparr>Metadata = \<lparr>meta_Name = [], Author = []\<rparr>, Global = example_global,
      Groups = [0, 1, 2]\<rparr>"

definition selector_builder :: BuilderPlugin where
  "selector_builder =
     \<lparr>b_ID = ''docker:go'', b_ConfigType = ''DockerGoBuilderConfig'',
      b_Build = (\<lambda>inp. (Some \<lparr>BuilderID = [],
                                  ArtifactPath = strings_Join (bi_Selectors inp) ''-''\<rparr>, None)),
      b_Healthcheck = None\<rparr>"

definition fanout_engine :: Engine where
  "fanout_engine = example_engine\<lparr>builders := [(''docker:go'', selector_builder)]\<rparr>"

definition fanout_input :: BuildInput where
  "fanout_input =
     \<lparr>build_Composition = fanout_composition, build_Manifest = example_manifest,
      build_Sources = example_sources\<rparr>"

definition full_disk :: Extern where
  "full_disk = example_extern\<lparr>duplicate_sources := (\<lambda>src i. Inl ''no space left on device'')\<rparr>"

text \<open>A plan that only the \<^verbatim>\<open>exec:go\<close> builder and the \<^verbatim>\<open>local:exec\<close> runner support.\<close>

definition exec_manifest :: TestPlanManifest where
  "exec_manifest =
     example_manifest\<lparr>Builders := [(''exec:go'', [])], Runners := [(''local:exec'', [])]\<rparr>"

text \<open>
  A composition with global build and run defaults and an allocated global build
  configuration (the map at address 7), and a manifest whose builder has a default.
\<close>

definition defaults_global :: Global where
  "defaults_global =
     example_global
       \<lparr>Global_BuildConfig := Some 7,
        Global_Build := Some \<lparr>Selectors = [''default_selector_1''], Dependencies = []\<rparr>,
        Global_Run := Some \<lparr>Artifact = [],
                             TestParams = Some [(''param1'', ''value1:default:composition''),
                                                (''param2'', ''value2:default:composition'')],
                             Profiles = None\<rparr>\<rparr>"

definition defaults_composition :: Composition where
  "defaults_composition = example_composition\<lparr>Global := defaults_global\<rparr>"

definition base_image_manifest :: TestPlanManifest where
  "base_image_manifest =
     example_manifest
       \<lparr>Builders := [(''docker:go'', [(''build_base_image'', AString ''base_image_manifest'')])]\<rparr>"

text \<open>
  Three groups whose counts, \<open>2 ^ 63 - 1\<close> twice and \<open>3\<close>, add up to \<open>2 ^ 64 + 1\<close>, in a
  composition that declares one instance in total.
\<close>

definition overflow_store :: store where
  "overflow_store =
     \<lparr>group_at = (\<lambda>a. if a = 0
                        then no_group\<lparr>ID := ''a'',
                               Instances := \<lparr>Count = 9223372036854775807, Percentage = Finite 0\<rparr>\<rparr>
                        else if a = 1
                        then no_group\<lparr>ID := ''b'',
                               Instances := \<lparr>Count = 9223372036854775807, Percentage = Finite 0\<rparr>\<rparr>
                        else no_group\<lparr>ID := ''c'',
                               Instances := \<lparr>Count = 3, Percentage = Finite 0\<rparr>\<rparr>),
      map_at = (\<lambda>a. []), fresh = 0\<rparr>"

definition overflow_composition :: Composition where
  "overflow_composition = example_composition\<lparr>Groups := [0, 1, 2]\<rparr>"

text \<open>
  A global build default that redirects a module to a fork, a group that overrides
  another module, and a group with no dependencies of its own.
\<close>

definition fork_default :: Dependency where
  "fork_default =
     \<lparr>Module = ''github.com/ipfs/go-ipfs'', Target = ''github.com/fork/go-ipfs'',
      Version = ''v0.5.0''\<rparr>"

definition own_dependency :: Dependency where
  "own_dependency =
     \<lparr>Module = ''github.com/libp2p/go-libp2p'', Target = [], Version = ''v0.8.0''\<rparr>"

definition fork_store :: store where
  "fork_store =
     \<lparr>group_at = (\<lambda>a. if a = 0
                        then no_group\<lparr>ID := ''overrides'',
                               Instances := \<lparr>Count = 1, Percentage = Finite 0\<rparr>,
                               Build := \<lparr>Selectors = [], Dependencies = [own_dependency]\<rparr>\<rparr>
                        else no_group\<lparr>ID := ''plain'',
                               Instances := \<lparr>Count = 1, Percentage = Finite 0\<rparr>\<rparr>),
      map_at = (\<lambda>a. []), fresh = 0\<rparr>"

definition fork_composition :: Composition where
  "fork_composition =
     example_composition
       \<lparr>Global := example_global
          \<lparr>TotalInstances := 2,
           Global_Build := Some \<lparr>Selectors = [], Dependencies = [fork_default]\<rparr>\<rparr>,
        Groups := [0, 1]\<rparr>"

text \<open>Build blocks: one with two dependencies, permuted, and with other targets.\<close>

definition key_build :: Build where
  "key_build =
     \<lparr>Selectors = [''netgo'', ''cgo''],
      Dependencies = [\<lparr>Module = ''dependency/b'', Target = [], Version = ''2.0.0''\<rparr>,
                      \<lparr>Module = ''dependency/a'', Target = ''remote/fork'', Version = ''1.0.0''\<rparr>]\<rparr>"

definition key_build_permuted :: Build where
  "key_build_permuted =
     \<lparr>Selectors = [''cgo'', ''netgo''],
      Dependencies = [\<lparr>Module = ''dependency/a'', Target = ''remote/fork'', Version = ''1.0.0''\<rparr>,
                      \<lparr>Module = ''dependency/b'', Target = [], Version = ''2.0.0''\<rparr>]\<rparr>"

definition key_build_retargeted :: Build where
  "key_build_retargeted =
     \<lparr>Selectors = [''netgo'', ''cgo''],
      Dependencies = [\<lparr>Module = ''dependency/b'', Target = ''other/fork'', Version = ''2.0.0''\<rparr>,
                      \<lparr>Module = ''dependency/a'', Target = [], Version = ''1.0.0''\<rparr>]\<rparr>"

text \<open>A module that is overridden twice, in the two orders.\<close>

definition twice_build :: Build where
  "twice_build =
     \<lparr>Selectors = [],
      Dependencies = [\<lparr>Module = ''m'', Target = [], Version = ''1''\<rparr>,
                      \<lparr>Module = ''m'', Target = [], Version = ''2''\<rparr>]\<rparr>"

definition twice_build_permuted :: Build where
  "twice_build_permuted =
     \<lparr>Selectors = [],
      Dependencies = [\<lparr>Module = ''m'', Target = [], Version = ''2''\<rparr>,
                      \<lparr>Module = ''m'', Target = [], Version = ''1''\<rparr>]\<rparr>"

text \<open>A version with a colon, and the module and version that read the same in a key.\<close>

definition colon_build :: Build where
  "colon_build =
     \<lparr>Selectors = [],
      Dependencies = [\<lparr>Module = ''a'', Target = [], Version = ''b:c''\<rparr>]\<rparr>"

definition colon_build_changed :: Build where
  "colon_build_changed =
     colon_build\<lparr>Dependencies :=
       (Dependencies colon_build)[0 := \<lparr>Module = ''a:b'', Target = [], Version = ''c''\<rparr>]\<rparr>"

text \<open>
  A module that is overridden twice, with a version that holds a bar and a colon, and the
  replacement of the first override that reads the same in a key.
\<close>

definition bar_build :: Build where
  "bar_build =
     \<lparr>Selectors = [],
      Dependencies = [\<lparr>Module = ''a'', Target = [], Version = ''|b:''\<rparr>,
                      \<lparr>Module = ''a'', Target = [], Version = []\<rparr>]\<rparr>"

definition bar_build_changed :: Build where
  "bar_build_changed =
     bar_build\<lparr>Dependencies :=
       (Dependencies bar_build)[0 := \<lparr>Module = ''b'', Target = [], Version = ''|a:''\<rparr>]\<rparr>"

section \<open>Evaluating the examples\<close>

lemma entries_Nil: "entries [] = []"
  by (simp add: entries_def)

lemma map_len_Nil: "map_len [] = 0"
  by (simp add: map_len_def entries_Nil)

lemma entries_single: "entries [(k, v)] = [(k, v)]"
  by (simp add: entries_def)

lemma map_len_single: "map_len [(k, v)] = 1"
  by (simp add: map_len_def entries_single)

lemma SearchStrings_docker_go: "SearchStrings [''docker:go''] ''docker:go'' = 0"
  by code_simp

lemma SearchStrings_local_docker: "SearchStrings [''local:docker''] ''local:docker'' = 0"
  by code_simp

lemma SearchStrings_exec_go: "SearchStrings [''exec:go''] ''docker:go'' = 0"
  by code_simp

lemma SearchStrings_local_exec: "SearchStrings [''local:exec''] ''local:docker'' = 0"
  by code_simp

lemmas example_defs =
  example_manifest_def example_composition_def example_global_def example_store_def
  example_extern_def example_engine_def example_run_input_def example_build_input_def
  example_sources_def exec_manifest_def no_group_def tag_validator_def
  defaults_global_def defaults_composition_def base_image_manifest_def
  overflow_store_def overflow_composition_def fork_store_def fork_composition_def
  fork_default_def own_dependency_def

lemmas prepare_simps =
  TestCaseByName_def map_len_single entries_single map_len_Nil entries_Nil
  apply_manifest_config_def global_map_def apply_builder_config_def trickle_build_defaults_def
  trickle_global_build_config_def apply_runner_config_def trickle_run_defaults_def
  SearchStrings_docker_go SearchStrings_local_docker SearchStrings_exec_go
  SearchStrings_local_exec Let_def

lemma example_PrepareForBuild:
  "snd (PrepareForBuild example_store example_composition example_manifest)
     = Ok (example_composition\<lparr>Global := example_global\<lparr>Global_BuildConfig := Some 0\<rparr>\<rparr>)"
  by (simp add: PrepareForBuild_def example_defs prepare_simps)

lemma example_PrepareForRun:
  "snd (PrepareForRun example_extern example_store example_composition example_manifest)
     = Ok (example_composition\<lparr>Global := example_global\<lparr>Global_RunConfig := Some 0\<rparr>\<rparr>)"
  by (simp add: PrepareForRun_def example_defs prepare_simps)

section \<open>PickGroups\<close>

lemma check_indices_None: "check_indices n idxs = None \<longleftrightarrow> (\<forall>i\<in>set idxs. i < int n)"
  by (induction idxs) auto

lemma check_indices_Some:
  "check_indices n idxs = Some e \<Longrightarrow> \<exists>i\<in>set idxs. i \<ge> int n \<and> e = InvalidGroupIndex i"
  by (induction idxs) (auto split: if_splits)

lemma append_groups_in_range:
  "\<forall>i\<in>set idxs. 0 \<le> i \<and> i < int (length gs) \<Longrightarrow>
   append_groups gs idxs grps = Ok (grps @ map (\<lambda>i. gs ! nat i) idxs)"
  by (induction idxs arbitrary: grps) auto

text \<open>
  For indices that are all in range PickGroups is as specified: the groups at the
  indices, in the order of the index list.
\<close>

lemma PickGroups_in_range:
  assumes "\<forall>i\<in>set idxs. 0 \<le> i \<and> i < int (length (Groups c))"
  shows "PickGroups c idxs = Ok (c\<lparr>Groups := map (\<lambda>i. Groups c ! nat i) idxs\<rparr>)"
proof -
  from assms have "check_indices (length (Groups c)) idxs = None"
    by (simp add: check_indices_None)
  moreover from assms have "append_groups (Groups c) idxs [] = Ok (map (\<lambda>i. Groups c ! nat i) idxs)"
    using append_groups_in_range [of idxs "Groups c" "[]"] by simp
  ultimately show ?thesis
    by (simp add: PickGroups_def)
qed

text \<open>An index at or past the length is refused with InvalidGroupIndex.\<close>

lemma PickGroups_too_large:
  assumes "\<exists>i\<in>set idxs. i \<ge> int (length (Groups c))"
  shows "\<exists>i\<in>set idxs. i \<ge> int (length (Groups c)) \<and> PickGroups c idxs = Err (InvalidGroupIndex i)"
proof -
  from assms obtain e where e: "check_indices (length (Groups c)) idxs = Some e"
    using check_indices_None [of "length (Groups c)" idxs] by fastforce
  from check_indices_Some [OF e] e show ?thesis
    by (auto simp: PickGroups_def)
qed

text \<open>
  C4: PickGroups is claimed to fail with InvalidGroupIndex on any index out of range and
  never to access a group at such an index. The first loop only compares with the length
  from above: for the negative index \<open>-1\<close>, on any composition, it passes and the second
  loop indexes \<^verbatim>\<open>c.Groups[-1]\<close>, which panics.
\<close>

theorem PickGroups_negative_index_panics:
  "PickGroups c [- 1] = Panic (IndexOutOfRange (- 1))"
  by (simp add: PickGroups_def)

section \<open>ValidateInstances\<close>

lemma real_unat_pos: "(0::real) < real (unat (w::uint)) \<longleftrightarrow> w \<noteq> 0"
  by (metis of_nat_0_less_iff unat_gt_0)

text \<open>
  C6: ValidateInstances accepts an \<^verbatim>\<open>Instances\<close> value (reports no field) exactly when one
  of count and percentage is populated with a positive value and the other is zero: a
  nonzero count with a zero percentage, or a zero count with a positive percentage. So
  both zero fails, both nonzero fails, a positive count alone passes, and a positive
  percentage alone passes.
\<close>

theorem ValidateInstances_accepts_iff:
  "(ValidateInstances i = []) =
     ((Count i \<noteq> 0 \<and> f64_is_zero (Percentage i)) \<or> (Count i = 0 \<and> f64_positive (Percentage i)))"
proof (cases "Percentage i")
  case (Finite r)
  then show ?thesis
    using real_unat_pos [of "Count i"]
    by (auto simp: ValidateInstances_def f64_of_uint_def simp del: of_nat_unat)
qed (auto simp: ValidateInstances_def f64_of_uint_def)

theorem ValidateInstances_accepts_iff_witness:
  "ValidateInstances \<lparr>Count = 3, Percentage = Finite 0\<rparr> = []
   \<and> ValidateInstances \<lparr>Count = 0, Percentage = Finite (1 / 2)\<rparr> = []
   \<and> ValidateInstances \<lparr>Count = 0, Percentage = Finite 1\<rparr> = []
   \<and> ValidateInstances \<lparr>Count = 0, Percentage = Finite 0\<rparr> \<noteq> []
   \<and> ValidateInstances \<lparr>Count = 3, Percentage = Finite (1 / 2)\<rparr> \<noteq> []
   \<and> ValidateInstances \<lparr>Count = 0, Percentage = NaN\<rparr> \<noteq> []"
  using ValidateInstances_accepts_iff [of "\<lparr>Count = 3, Percentage = Finite 0\<rparr>"]
    ValidateInstances_accepts_iff [of "\<lparr>Count = 0, Percentage = Finite (1 / 2)\<rparr>"]
    ValidateInstances_accepts_iff [of "\<lparr>Count = 0, Percentage = Finite 1\<rparr>"]
    ValidateInstances_accepts_iff [of "\<lparr>Count = 0, Percentage = Finite 0\<rparr>"]
    ValidateInstances_accepts_iff [of "\<lparr>Count = 3, Percentage = Finite (1 / 2)\<rparr>"]
    ValidateInstances_accepts_iff [of "\<lparr>Count = 0, Percentage = NaN\<rparr>"]
  by simp

section \<open>The support checks of PrepareForBuild and PrepareForRun\<close>

text \<open>
  On a sorted slice, \<^verbatim>\<open>sort.SearchStrings\<close> returns the length only when every element
  is below the string searched for: it answers where the string would be inserted, not
  whether it is there.
\<close>

lemma sort_Search_end:
  "(\<And>k l. i \<le> k \<Longrightarrow> k \<le> l \<Longrightarrow> l < j \<Longrightarrow> f k \<Longrightarrow> f l) \<Longrightarrow> i \<le> j \<Longrightarrow>
   i \<le> sort_Search i j f \<and> sort_Search i j f \<le> j \<and>
   (sort_Search i j f = j \<longleftrightarrow> (\<forall>k. i \<le> k \<and> k < j \<longrightarrow> \<not> f k))"
proof (induction i j f rule: sort_Search.induct)
  case (1 i j f)
  show ?case
  proof (cases "i < j")
    case False
    with "1.prems" show ?thesis by (auto simp: sort_Search.simps [of i j f])
  next
    case True
    define h where "h = (i + j) div 2"
    from True have h: "i \<le> h" "h < j" by (auto simp: h_def)
    show ?thesis
    proof (cases "f h")
      case False
      have mono: "f l" if "h + 1 \<le> k" "k \<le> l" "l < j" "f k" for k l
      proof -
        from that h have "i \<le> k" by linarith
        with "1.prems"(1) that show ?thesis by blast
      qed
      from h have hj: "h + 1 \<le> j" by simp
      have ih: "h + 1 \<le> sort_Search (h + 1) j f \<and> sort_Search (h + 1) j f \<le> j \<and>
        (sort_Search (h + 1) j f = j \<longleftrightarrow> (\<forall>k. h + 1 \<le> k \<and> k < j \<longrightarrow> \<not> f k))"
      proof (rule "1.IH"(1) [OF True, folded h_def, OF False])
        show "h + 1 \<le> j" by (rule hj)
      next
        fix k l assume "h + 1 \<le> k" "k \<le> l" "l < j" "f k"
        then show "f l" by (rule mono)
      qed
      have low: "\<not> f k" if "i \<le> k" "k \<le> h" for k
        using "1.prems"(1) [of k h] that h False by blast
      have eq: "sort_Search i j f = sort_Search (h + 1) j f"
        using True False by (subst sort_Search.simps) (simp add: h_def)
      have "(\<forall>k. h + 1 \<le> k \<and> k < j \<longrightarrow> \<not> f k) \<longleftrightarrow> (\<forall>k. i \<le> k \<and> k < j \<longrightarrow> \<not> f k)"
      proof (intro iffI allI impI)
        fix k assume a: "\<forall>k. h + 1 \<le> k \<and> k < j \<longrightarrow> \<not> f k" and k: "i \<le> k \<and> k < j"
        show "\<not> f k"
        proof (cases "k \<le> h")
          case True with low k show ?thesis by blast
        next
          case False then have "h + 1 \<le> k" by simp
          with a k show ?thesis by blast
        qed
      next
        fix k assume a: "\<forall>k. i \<le> k \<and> k < j \<longrightarrow> \<not> f k" and k: "h + 1 \<le> k \<and> k < j"
        from k h have "i \<le> k" by linarith
        with a k show "\<not> f k" by blast
      qed
      with ih eq h show ?thesis by simp
    next
      case fh: True
      have mono: "f l" if "i \<le> k" "k \<le> l" "l < h" "f k" for k l
      proof -
        from that h have "l < j" by linarith
        with "1.prems"(1) that show ?thesis by blast
      qed
      have nfh: "\<not> \<not> f h" using fh by simp
      have ih: "i \<le> sort_Search i h f \<and> sort_Search i h f \<le> h"
      proof -
        have "i \<le> sort_Search i h f \<and> sort_Search i h f \<le> h \<and>
          (sort_Search i h f = h \<longleftrightarrow> (\<forall>k. i \<le> k \<and> k < h \<longrightarrow> \<not> f k))"
        proof (rule "1.IH"(2) [OF True, folded h_def, OF nfh])
          show "i \<le> h" by (rule h(1))
        next
          fix k l assume "i \<le> k" "k \<le> l" "l < h" "f k"
          then show "f l" by (rule mono)
        qed
        then show ?thesis by blast
      qed
      have eq: "sort_Search i j f = sort_Search i h f"
        using True fh by (subst sort_Search.simps) (simp add: h_def)
      have "\<not> (\<forall>k. i \<le> k \<and> k < j \<longrightarrow> \<not> f k)" using fh h by blast
      moreover have "sort_Search i j f \<noteq> j" using ih eq h by simp
      ultimately show ?thesis using ih eq h by simp
    qed
  qed
qed

lemma SearchStrings_end:
  assumes "sorted xs"
  shows "SearchStrings xs x = length xs \<longleftrightarrow> (\<forall>s\<in>set xs. s < x)"
proof -
  have mono: "\<And>k l. 0 \<le> k \<Longrightarrow> k \<le> l \<Longrightarrow> l < length xs \<Longrightarrow> x \<le> xs ! k \<Longrightarrow> x \<le> xs ! l"
    using assms by (meson order_trans sorted_nth_mono)
  have "SearchStrings xs x = length xs \<longleftrightarrow> (\<forall>k. 0 \<le> k \<and> k < length xs \<longrightarrow> \<not> x \<le> xs ! k)"
    unfolding SearchStrings_def
    using sort_Search_end [of 0 "length xs" "\<lambda>i. x \<le> xs ! i", OF mono] by simp
  also have "\<dots> \<longleftrightarrow> (\<forall>s\<in>set xs. s < x)"
    by (auto simp: all_set_conv_all_nth not_le)
  finally show ?thesis .
qed

lemma map_len_0: "map_len m = 0 \<longleftrightarrow> m = []"
  by (cases m) (simp_all add: map_len_def entries_def)

lemma set_sorted_keys: "set (sort (map fst (entries m))) = fst ` set m"
  using AList.clearjunk_keys_set [of m] by (simp add: entries_def)

lemma PrepareForBuild_UnsupportedBuilder_iff:
  "(\<exists>b bs. snd (PrepareForBuild s c m) = Err (UnsupportedBuilder b bs)) \<longleftrightarrow>
     Builders m \<noteq> [] \<and> (\<forall>k\<in>fst ` set (Builders m). k < Builder (Global c))"
proof -
  have "SearchStrings (sort (map fst (entries (Builders m)))) (Builder (Global c))
          = length (sort (map fst (entries (Builders m))))
        \<longleftrightarrow> (\<forall>k\<in>fst ` set (Builders m). k < Builder (Global c))"
    using SearchStrings_end [of "sort (map fst (entries (Builders m)))" "Builder (Global c)"]
    by (simp only: set_sorted_keys sorted_sort)
  then show ?thesis
    by (auto simp: PrepareForBuild_def Let_def map_len_0 split: prod.splits option.splits)
qed

lemma parameter_defaults_error:
  "parameter_defaults x ps acc = Inl e \<Longrightarrow> \<exists>n. e = ParameterMarshalError n"
  by (induction x ps acc rule: parameter_defaults.induct) (auto split: any.splits option.splits)

lemma PrepareForRun_UnsupportedRunner_iff:
  "(\<exists>b bs. snd (PrepareForRun x s c m) = Err (UnsupportedRunner b bs)) \<longleftrightarrow>
     TestCaseByName m (Case (Global c)) \<noteq> None \<and>
     Runners m \<noteq> [] \<and> (\<forall>k\<in>fst ` set (Runners m). k < Runner (Global c))"
proof -
  have search: "SearchStrings (sort (map fst (entries (Runners m)))) (Runner (Global c))
          = length (sort (map fst (entries (Runners m))))
        \<longleftrightarrow> (\<forall>k\<in>fst ` set (Runners m). k < Runner (Global c))"
    using SearchStrings_end [of "sort (map fst (entries (Runners m)))" "Runner (Global c)"]
    by (simp only: set_sorted_keys sorted_sort)
  show ?thesis
  proof (cases "TestCaseByName m (Case (Global c))")
    case None
    then show ?thesis by (simp add: PrepareForRun_def Let_def)
  next
    case (Some tcase)
    show ?thesis
    proof (cases "Runners m = []")
      case True
      with Some show ?thesis by (simp add: PrepareForRun_def Let_def map_len_0)
    next
      case ne: False
      show ?thesis
      proof (cases "\<forall>k\<in>fst ` set (Runners m). k < Runner (Global c)")
        case True
        with Some ne search show ?thesis by (simp add: PrepareForRun_def Let_def map_len_0)
      next
        case False
        with search have ns: "SearchStrings (sort (map fst (entries (Runners m)))) (Runner (Global c))
          \<noteq> length (sort (map fst (entries (Runners m))))" by blast
        have "snd (PrepareForRun x s c m) \<noteq> Err (UnsupportedRunner b bs)" for b bs
          using Some ne ns
          by (auto simp: PrepareForRun_def Let_def map_len_0 dest: parameter_defaults_error
              split: prod.splits sum.splits)
        with False show ?thesis by blast
      qed
    qed
  qed
qed

text \<open>
  C1: PrepareForBuild is claimed to fail with UnsupportedBuilder exactly when the
  requested builder is not among the manifest's builders, and PrepareForRun likewise for
  the runner. By the two lemmas above they fail only when the requested name is above
  every advertised name. Here the plan supports only \<^verbatim>\<open>exec:go\<close> and \<^verbatim>\<open>local:exec\<close>, the
  composition asks for \<^verbatim>\<open>docker:go\<close> and \<^verbatim>\<open>local:docker\<close>, and both calls succeed.
\<close>

theorem Prepare_accepts_unadvertised_builder_and_runner:
  "Builder (Global example_composition) \<notin> fst ` set (Builders exec_manifest)
   \<and> snd (PrepareForBuild example_store example_composition exec_manifest)
        = Ok example_composition
   \<and> Runner (Global example_composition) \<notin> fst ` set (Runners exec_manifest)
   \<and> snd (PrepareForRun example_extern example_store example_composition exec_manifest)
        = Ok example_composition"
  by (simp add: PrepareForBuild_def PrepareForRun_def example_defs prepare_simps)

section \<open>The receiver of PrepareForBuild and PrepareForRun\<close>

text \<open>
  C3: PrepareForBuild and PrepareForRun are claimed to leave the composition they are
  called on unchanged. The receiver is copied, but its groups are reached through
  pointers and its configuration maps are references. Here group 0 of the caller's
  composition has no selectors and no test parameters before the calls and has the
  defaults after them, and the caller's build configuration map has gained the manifest's
  default.
\<close>

theorem Prepare_writes_through_the_receiver:
  "0 \<in> set (Groups defaults_composition)
   \<and> Selectors (Build (group_at example_store 0)) = []
   \<and> Selectors (Build (group_at
        (fst (PrepareForBuild example_store defaults_composition base_image_manifest)) 0))
        = [''default_selector_1'']
   \<and> Global_BuildConfig (Global defaults_composition) = Some 7
   \<and> map_at example_store 7 = []
   \<and> map_at (fst (PrepareForBuild example_store defaults_composition base_image_manifest)) 7
        = [(''build_base_image'', AString ''base_image_manifest'')]
   \<and> TestParams (Run (group_at example_store 0)) = None
   \<and> TestParams (Run (group_at
        (fst (PrepareForRun example_extern example_store defaults_composition example_manifest)) 0))
        = Some [(''param1'', ''value1:default:composition''),
                (''param2'', ''value2:default:composition''),
                (''param4'', ''value4:default:manifest'')]"
  by (simp add: PrepareForBuild_def PrepareForRun_def example_defs prepare_simps
      trickle_build_def trickle_build_config_def ApplyDefaults_def trickle_run_def trickleMap_def
      apply_parameter_defaults_def entries_def AList.delete_eq)

section \<open>The worker\<close>

text \<open>When the log opens and the task does not panic, the worker marks it completed once.\<close>

lemma process_task_marks_completed:
  assumes "\<not> OpenFile_fails io" and "snd (dispatch x e s tsk) = Inr (data, err)"
  shows "filter is_MarkCompleted (fst (snd (process_task x e io s tsk)))
           = [MarkCompleted (task_ID tsk) err data]"
  using assms by (cases "dispatch x e s tsk") (simp add: process_task_def Let_def)

text \<open>
  C2: the worker is claimed to call MarkCompleted for every task it popped, whichever
  step fails, the opening of the log among them. When \<^verbatim>\<open>os.OpenFile\<close> fails the closure
  returns after logging: for every task, the calls it has made contain no MarkCompleted.
\<close>

theorem process_task_log_failure_skips_MarkCompleted:
  "filter is_MarkCompleted
     (fst (snd (process_task x e (io\<lparr>OpenFile_fails := True\<rparr>) s tsk))) = []"
  by (simp add: process_task_def Let_def)

section \<open>Unregistered plugins\<close>

lemma example_prebuild:
  "prebuild example_extern example_engine example_store example_run_input
     = (example_store, [], Ok ())"
  by (simp add: prebuild_def example_run_input_def)

lemma example_ValidateForRun:
  "snd (ValidateForRun example_extern
          (fst (PrepareForRun example_extern example_store example_composition example_manifest))
          (example_composition\<lparr>Global := example_global\<lparr>Global_RunConfig := Some 0\<rparr>\<rparr>)) = None"
  by (simp add: ValidateForRun_def PrepareForRun_def example_defs prepare_simps
      ValidateInstances_def f64_of_uint_def Groups_Validate_def apply_parameter_defaults_def)

lemma example_ValidateForBuild:
  "ValidateForBuild example_extern
     (fst (PrepareForBuild example_store example_composition example_manifest))
     (example_composition\<lparr>Global := example_global\<lparr>Global_BuildConfig := Some 0\<rparr>\<rparr>) = None"
  by (simp add: ValidateForBuild_def PrepareForBuild_def example_defs prepare_simps
      ValidateInstances_def f64_of_uint_def Groups_Validate_def)

text \<open>
  C10: when the runner a run asks for has passed PrepareForRun and ValidateForRun but is
  not in the engine's registry, doRun goes on with the nil runner and panics at
  \<^verbatim>\<open>run.ConfigType()\<close>; it returns no error. doBuild, in the same situation for the
  builder, returns the error ``unrecognized builder''.
\<close>

theorem doRun_unregistered_runner_panics:
  "(prebuild x e s input = (s1, calls, Ok ())
      \<and> PrepareForRun x s1 (run_Composition input) (run_Manifest input) = (s2, Ok cmp)
      \<and> ValidateForRun x s2 cmp = (s3, None)
      \<and> map_of (runners e) (Runner (Global cmp)) = None
    \<longrightarrow> doRun x e s run_id input = (s3, calls, Panic NilDereference))
   \<and> (PrepareForBuild s (build_Composition binput) (build_Manifest binput) = (t1, Ok bcmp)
      \<and> ValidateForBuild x t1 bcmp = None
      \<and> map_of (builders e) (Builder (Global bcmp)) = None
    \<longrightarrow> doBuild x e s binput = (t1, [], Err (UnrecognizedBuilder (Builder (Global bcmp)))))"
  by (simp add: doRun_def doBuild_def healthcheck_gate_def)

theorem doRun_unregistered_runner_panics_witness:
  "snd (doRun example_extern example_engine example_store ''run-1'' example_run_input)
     = ([], Panic NilDereference)
   \<and> snd (doBuild example_extern example_engine example_store example_build_input)
     = ([], Err (UnrecognizedBuilder ''docker:go''))"
proof -
  let ?c = "example_composition\<lparr>Global := example_global\<lparr>Global_RunConfig := Some 0\<rparr>\<rparr>"
  let ?s2 = "fst (PrepareForRun example_extern example_store example_composition example_manifest)"
  let ?s3 = "fst (ValidateForRun example_extern ?s2 ?c)"
  let ?b = "example_composition\<lparr>Global := example_global\<lparr>Global_BuildConfig := Some 0\<rparr>\<rparr>"
  let ?t1 = "fst (PrepareForBuild example_store example_composition example_manifest)"
  have p: "PrepareForRun example_extern example_store (run_Composition example_run_input)
             (run_Manifest example_run_input) = (?s2, Ok ?c)"
    using example_PrepareForRun by (simp add: example_run_input_def prod_eq_iff)
  have v: "ValidateForRun example_extern ?s2 ?c = (?s3, None)"
    using example_ValidateForRun by (simp add: prod_eq_iff)
  have r: "map_of (runners example_engine) (Runner (Global ?c)) = None"
    by (simp add: example_engine_def)
  have pb: "PrepareForBuild example_store (build_Composition example_build_input)
              (build_Manifest example_build_input) = (?t1, Ok ?b)"
    using example_PrepareForBuild by (simp add: example_build_input_def prod_eq_iff)
  have b: "map_of (builders example_engine) (Builder (Global ?b)) = None"
    by (simp add: example_engine_def)
  from doRun_unregistered_runner_panics
    [of example_extern example_engine example_store example_run_input example_store "[]"
        ?s2 ?c ?s3 "''run-1''" example_build_input ?t1 ?b]
    example_prebuild p v r pb example_ValidateForBuild b
  show ?thesis
    by (simp add: example_global_def)
qed

section \<open>ValidateForRun\<close>

lemma instance_count_update [simp]:
  "instance_count x tot (g\<lparr>calculatedInstanceCnt := n\<rparr>) = instance_count x tot g"
  by (simp add: instance_count_def)

lemma calculate_instances_step:
  "calculate_instances x tot (a # as) s cum =
     calculate_instances x tot as
       (s\<lparr>group_at := (group_at s)
            (a := (group_at s a)\<lparr>calculatedInstanceCnt := instance_count x tot (group_at s a)\<rparr>)\<rparr>)
       (cum + instance_count x tot (group_at s a))"
  by (simp add: Let_def instance_count_def)

lemma calculate_instances_group_at:
  "group_at (fst (calculate_instances x tot as s cum)) a =
     (if a \<in> set as
      then (group_at s a)\<lparr>calculatedInstanceCnt := instance_count x tot (group_at s a)\<rparr>
      else group_at s a)"
proof (induction as arbitrary: s cum)
  case Nil
  show ?case by simp
next
  case (Cons b as)
  show ?case
    by (simp only: calculate_instances_step Cons.IH) simp
qed

lemma calculate_instances_cum:
  "snd (calculate_instances x tot as s cum) =
     cum + sum_list (map (\<lambda>a. instance_count x tot (group_at s a)) as)"
proof (induction as arbitrary: s cum)
  case Nil
  show ?case by simp
next
  case (Cons b as)
  let ?s = "s\<lparr>group_at := (group_at s)
            (b := (group_at s b)\<lparr>calculatedInstanceCnt := instance_count x tot (group_at s b)\<rparr>)\<rparr>"
  have "map (\<lambda>a. instance_count x tot (group_at ?s a)) as
      = map (\<lambda>a. instance_count x tot (group_at s a)) as"
    by (rule map_cong) auto
  then show ?case
    by (simp only: calculate_instances_step Cons.IH) (simp add: add.assoc)
qed

lemma unat_sum_list:
  "unat (sum_list (ws :: uint list)) = sum_list (map unat ws) mod 2 ^ 64"
proof (induction ws)
  case Nil
  show ?case by simp
next
  case (Cons w ws)
  have "unat (w + sum_list ws) = (unat w + unat (sum_list ws)) mod 2 ^ 64"
    by (simp add: unat_word_ariths)
  also have "\<dots> = (unat w + sum_list (map unat ws)) mod 2 ^ 64"
    by (simp add: Cons.IH mod_add_right_eq)
  finally show ?case by simp
qed

lemma ValidateForRun_counts:
  assumes "validator_Struct x s c = None" and "ValidateForRun x s c = (s', r)"
  shows "\<forall>a\<in>set (Groups c). calculatedInstanceCnt (group_at s' a)
            = instance_count x (TotalInstances (Global c)) (group_at s a)"
    and "r = None \<longrightarrow> (\<Sum>a\<leftarrow>Groups c. calculatedInstanceCnt (group_at s' a)) = TotalInstances (Global c)"
    and "(\<Sum>a\<leftarrow>Groups c. calculatedInstanceCnt (group_at s' a)) \<noteq> TotalInstances (Global c)
       \<longrightarrow> r = Some (InstanceCountMismatch (TotalInstances (Global c))
                      (\<Sum>a\<leftarrow>Groups c. calculatedInstanceCnt (group_at s' a)))"
proof -
  let ?tot = "TotalInstances (Global c)"
  let ?ci = "calculate_instances x ?tot (Groups c) s 0"
  have s': "s' = fst ?ci"
    using assms by (auto simp: ValidateForRun_def Let_def split: prod.splits if_splits)
  have r: "r = (if ?tot \<noteq> snd ?ci then Some (InstanceCountMismatch ?tot (snd ?ci))
                else Groups_Validate s' (Groups c))"
    using assms by (auto simp: ValidateForRun_def Let_def split: prod.splits if_splits)
  show g: "\<forall>a\<in>set (Groups c). calculatedInstanceCnt (group_at s' a)
            = instance_count x ?tot (group_at s a)"
    by (simp add: s' calculate_instances_group_at)
  have "map (\<lambda>a. calculatedInstanceCnt (group_at s' a)) (Groups c)
         = map (\<lambda>a. instance_count x ?tot (group_at s a)) (Groups c)"
    using g by (intro map_cong) auto
  then have cum: "snd ?ci = (\<Sum>a\<leftarrow>Groups c. calculatedInstanceCnt (group_at s' a))"
    by (simp only: calculate_instances_cum) simp
  show "r = None \<longrightarrow> (\<Sum>a\<leftarrow>Groups c. calculatedInstanceCnt (group_at s' a)) = ?tot"
    using r cum by (auto split: if_splits)
  show "(\<Sum>a\<leftarrow>Groups c. calculatedInstanceCnt (group_at s' a)) \<noteq> ?tot
       \<longrightarrow> r = Some (InstanceCountMismatch ?tot (\<Sum>a\<leftarrow>Groups c. calculatedInstanceCnt (group_at s' a)))"
    using r cum by auto
qed

lemma unat_sum_counts:
  "unat (\<Sum>a\<leftarrow>gs. calculatedInstanceCnt (group_at s a))
     = (\<Sum>a\<leftarrow>gs. unat (calculatedInstanceCnt (group_at s a))) mod 2 ^ 64"
  using unat_sum_list [of "map (\<lambda>a. calculatedInstanceCnt (group_at s a)) gs"]
  by (simp add: comp_def)

text \<open>
  What ValidateForRun does once the struct validation has passed: it sets every group's
  \<^verbatim>\<open>calculatedInstanceCnt\<close> to the count when that is nonzero and else to the rounded
  share of the total, and it compares the total with a sum accumulated in a \<^verbatim>\<open>uint\<close>.
  So it accepts exactly when the counts add up to the total modulo \<open>2 ^ 64\<close>.
\<close>

lemma ValidateForRun_wrapped_sum:
  "validator_Struct x s c = None \<and> ValidateForRun x s c = (s', r) \<longrightarrow>
     (\<forall>a\<in>set (Groups c). calculatedInstanceCnt (group_at s' a)
          = instance_count x (TotalInstances (Global c)) (group_at s a))
     \<and> (r = None \<longrightarrow>
          (\<Sum>a\<leftarrow>Groups c. unat (calculatedInstanceCnt (group_at s' a))) mod 2 ^ 64
            = unat (TotalInstances (Global c)))
     \<and> ((\<Sum>a\<leftarrow>Groups c. unat (calculatedInstanceCnt (group_at s' a))) mod 2 ^ 64
            \<noteq> unat (TotalInstances (Global c)) \<longrightarrow>
          r = Some (InstanceCountMismatch (TotalInstances (Global c))
                      (\<Sum>a\<leftarrow>Groups c. calculatedInstanceCnt (group_at s' a))))"
proof (intro impI, elim conjE)
  assume v: "validator_Struct x s c = None" and r: "ValidateForRun x s c = (s', r)"
  note facts = ValidateForRun_counts [OF v r]
  have eq: "(\<Sum>a\<leftarrow>Groups c. unat (calculatedInstanceCnt (group_at s' a))) mod 2 ^ 64
              = unat (TotalInstances (Global c))
            \<longleftrightarrow> (\<Sum>a\<leftarrow>Groups c. calculatedInstanceCnt (group_at s' a)) = TotalInstances (Global c)"
    by (simp only: unat_sum_counts [symmetric] word_unat_eq_iff)
  show "(\<forall>a\<in>set (Groups c). calculatedInstanceCnt (group_at s' a)
          = instance_count x (TotalInstances (Global c)) (group_at s a))
     \<and> (r = None \<longrightarrow>
          (\<Sum>a\<leftarrow>Groups c. unat (calculatedInstanceCnt (group_at s' a))) mod 2 ^ 64
            = unat (TotalInstances (Global c)))
     \<and> ((\<Sum>a\<leftarrow>Groups c. unat (calculatedInstanceCnt (group_at s' a))) mod 2 ^ 64
            \<noteq> unat (TotalInstances (Global c)) \<longrightarrow>
          r = Some (InstanceCountMismatch (TotalInstances (Global c))
                      (\<Sum>a\<leftarrow>Groups c. calculatedInstanceCnt (group_at s' a))))"
    unfolding eq using facts by blast
qed

lemma example_ValidateForRun_direct:
  "snd (ValidateForRun example_extern example_store example_composition) = None"
  by (simp add: ValidateForRun_def example_defs ValidateInstances_def f64_of_uint_def
      Groups_Validate_def Let_def)

text \<open>
  C5: ValidateForRun is to succeed only if the computed counts add up to the total
  exactly, and its own comment says it asserts that the sum total matches the expected
  value. The sum \<^verbatim>\<open>cum\<close> is a \<^verbatim>\<open>uint\<close> and nothing checks that it overflows. The three
  groups below have the counts \<open>2 ^ 63 - 1\<close>, \<open>2 ^ 63 - 1\<close> and \<open>3\<close>, which add up to
  \<open>2 ^ 64 + 1\<close>; the composition declares one instance in total; the struct validation
  passes, every group gets its count verbatim, and ValidateForRun returns no error.
\<close>

theorem ValidateForRun_accepts_overflowed_sum:
  "validator_Struct example_extern overflow_store overflow_composition = None
   \<and> map (\<lambda>a. Count (Instances (group_at overflow_store a))) (Groups overflow_composition)
       = [9223372036854775807, 9223372036854775807, 3]
   \<and> unat (TotalInstances (Global overflow_composition)) = 1
   \<and> snd (ValidateForRun example_extern overflow_store overflow_composition) = None
   \<and> map (\<lambda>a. unat (calculatedInstanceCnt
            (group_at (fst (ValidateForRun example_extern overflow_store overflow_composition)) a)))
         (Groups overflow_composition)
       = [9223372036854775807, 9223372036854775807, 3]
   \<and> (\<Sum>a\<leftarrow>Groups overflow_composition. unat (calculatedInstanceCnt
            (group_at (fst (ValidateForRun example_extern overflow_store overflow_composition)) a)))
       = 18446744073709551617"
  by (simp add: ValidateForRun_def example_defs ValidateInstances_def f64_of_uint_def
      Groups_Validate_def Let_def)

section \<open>BuildKey\<close>

lemma split_at_first:
  "x \<notin> set xs \<Longrightarrow> x \<notin> set xs' \<Longrightarrow> xs @ x # ys = xs' @ x # ys' \<Longrightarrow> xs = xs' \<and> ys = ys'"
proof (induction xs arbitrary: xs')
  case Nil
  then show ?case by (cases xs') auto
next
  case (Cons a xs)
  then show ?case by (cases xs') auto
qed

lemma dep_entry_inj:
  assumes "CHR '':'' \<notin> set (Module d)" "CHR '':'' \<notin> set (Module d')"
    and "CHR ''|'' \<notin> set (Version d)" "CHR ''|'' \<notin> set (Version d')"
    and "dep_entry d @ r = dep_entry d' @ r'"
  shows "module_version d = module_version d' \<and> r = r'"
proof -
  from assms(5) have "Module d @ CHR '':'' # (Version d @ CHR ''|'' # r)
                    = Module d' @ CHR '':'' # (Version d' @ CHR ''|'' # r')"
    by (simp add: dep_entry_def)
  from split_at_first [OF assms(1,2) this]
  have m: "Module d = Module d'" and "Version d @ CHR ''|'' # r = Version d' @ CHR ''|'' # r'"
    by auto
  from split_at_first [OF assms(3,4) this(2)] m show ?thesis
    by (simp add: module_version_def)
qed

lemma dep_entry_nonempty: "dep_entry d @ r \<noteq> []"
  by (simp add: dep_entry_def)

lemma entries_inj:
  "plain_names ds \<Longrightarrow> plain_names ds' \<Longrightarrow>
   concat (map dep_entry ds) = concat (map dep_entry ds') \<Longrightarrow>
   map module_version ds = map module_version ds'"
proof (induction ds arbitrary: ds')
  case Nil
  then show ?case by (cases ds') (auto simp: dep_entry_def)
next
  case (Cons d ds)
  show ?case
  proof (cases ds')
    case Nil
    with Cons.prems show ?thesis by (auto simp: dep_entry_def)
  next
    case (Cons d' es)
    with Cons.prems have "dep_entry d @ concat (map dep_entry ds) = dep_entry d' @ concat (map dep_entry es)"
      by simp
    with Cons.prems Cons
    have "module_version d = module_version d' \<and> concat (map dep_entry ds) = concat (map dep_entry es)"
      by (intro dep_entry_inj) (auto simp: plain_names_def)
    moreover from Cons.prems Cons have "plain_names ds" "plain_names es"
      by (auto simp: plain_names_def)
    ultimately show ?thesis
      using Cons.IH [of es] Cons by simp
  qed
qed

lemma insort_key_map:
  "insort_key f (g x) (map g xs) = map g (insort_key (\<lambda>a. f (g a)) x xs)"
  by (induction xs) auto

lemma sort_key_map: "sort_key f (map g xs) = map g (sort_key (\<lambda>a. f (g a)) xs)"
  by (induction xs) (auto simp: insort_key_map)

lemma dep_entry_module_version:
  "dep_entry d = fst (module_version d) @ '':'' @ snd (module_version d) @ ''|''"
  by (simp add: dep_entry_def module_version_def)

lemma sorted_entries_module_version:
  "map dep_entry (sort_key Module ds)
     = map (\<lambda>p. fst p @ '':'' @ snd p @ ''|'') (sort_key fst (map module_version ds))"
proof -
  have "(\<lambda>d. fst (module_version d)) = Module"
    by (auto simp: module_version_def)
  then have "sort_key fst (map module_version ds) = map module_version (sort_key Module ds)"
    by (simp add: sort_key_map)
  then show ?thesis
    by (simp add: dep_entry_module_version comp_def)
qed

lemma BuildKey_target_free:
  assumes "Selectors b = Selectors b'"
    and "map module_version (Dependencies b) = map module_version (Dependencies b')"
  shows "BuildKey b = BuildKey b'"
  using assms by (simp add: BuildKey_def Let_def sorted_entries_module_version)

lemma BuildKey_permutation:
  assumes "mset (Selectors b) = mset (Selectors b')"
    and "mset (Dependencies b) = mset (Dependencies b')"
    and "distinct (map Module (Dependencies b))"
  shows "BuildKey b = BuildKey b'"
proof -
  have "sort (Selectors b) = sort (Selectors b')"
    using assms(1) by (intro sort_key_eq_sort_key) auto
  moreover have "inj_on Module (set (Dependencies b))"
    using assms(3) by (simp add: distinct_map)
  then have "sort_key Module (Dependencies b) = sort_key Module (Dependencies b')"
    using assms(2) by (intro sort_key_eq_sort_key)
  ultimately show ?thesis
    by (simp add: BuildKey_def Let_def)
qed

lemma plain_names_sort: "plain_names (sort_key f ds) = plain_names ds"
  by (simp add: plain_names_def list_all_iff)

lemma BuildKey_inj:
  assumes "Selectors b = Selectors b'" and "plain_names (Dependencies b)"
    and "plain_names (Dependencies b')" and "BuildKey b = BuildKey b'"
  shows "mset (map module_version (Dependencies b)) = mset (map module_version (Dependencies b'))"
proof -
  from assms(1,4)
  have "concat (map dep_entry (sort_key Module (Dependencies b)))
      = concat (map dep_entry (sort_key Module (Dependencies b')))"
    by (simp add: BuildKey_def Let_def)
  with assms(2,3)
  have "map module_version (sort_key Module (Dependencies b))
      = map module_version (sort_key Module (Dependencies b'))"
    by (intro entries_inj) (simp_all add: plain_names_sort)
  then have "mset (map module_version (sort_key Module (Dependencies b)))
      = mset (map module_version (sort_key Module (Dependencies b')))"
    by simp
  then show ?thesis by simp
qed

lemma mset_update_same:
  assumes "i < length xs" and "mset (xs[i := y]) = mset xs"
  shows "y = xs ! i"
proof -
  have "xs ! i \<in># mset xs" using assms(1) by simp
  then have "mset xs = add_mset (xs ! i) (mset xs - {#xs ! i#})" by simp
  moreover have "mset (xs[i := y]) = add_mset y (mset xs - {#xs ! i#})"
    using assms(1) by (rule mset_update)
  ultimately have "add_mset y (mset xs - {#xs ! i#}) = add_mset (xs ! i) (mset xs - {#xs ! i#})"
    using assms(2) by simp
  then show ?thesis by simp
qed

lemma BuildKey_changes:
  assumes "i < length (Dependencies b)"
    and "module_version d \<noteq> module_version (Dependencies b ! i)"
    and "plain_names (Dependencies b)" and "plain_names [d]"
  shows "BuildKey (b\<lparr>Dependencies := (Dependencies b)[i := d]\<rparr>) \<noteq> BuildKey b"
proof
  assume eq: "BuildKey (b\<lparr>Dependencies := (Dependencies b)[i := d]\<rparr>) = BuildKey b"
  have "plain_names ((Dependencies b)[i := d])"
    using assms(3,4) by (auto simp: plain_names_def list_all_iff dest!: set_update_subset_insert [THEN subsetD])
  with BuildKey_inj [of "b\<lparr>Dependencies := (Dependencies b)[i := d]\<rparr>" b] assms(3) eq
  have "mset (map module_version ((Dependencies b)[i := d])) = mset (map module_version (Dependencies b))"
    by simp
  then have "mset ((map module_version (Dependencies b))[i := module_version d])
           = mset (map module_version (Dependencies b))"
    by (simp add: map_update)
  from mset_update_same [OF _ this] assms(1,2) show False by simp
qed

subsection \<open>Replacing one dependency\<close>

lemma dep_entry_eq:
  assumes "CHR '':'' \<notin> set (Module d)" and "CHR '':'' \<notin> set (Module d')"
    and "dep_entry d @ r = dep_entry d' @ r'"
  shows "Module d = Module d' \<and> Version d @ CHR ''|'' # r = Version d' @ CHR ''|'' # r'"
proof -
  from assms(3) have "Module d @ CHR '':'' # (Version d @ CHR ''|'' # r)
                    = Module d' @ CHR '':'' # (Version d' @ CHR ''|'' # r')"
    by (simp add: dep_entry_def)
  from split_at_first [OF assms(1,2) this] show ?thesis by simp
qed

lemma dep_entry_same_module:
  assumes "Module d = Module d'" and "dep_entry d = dep_entry d'"
  shows "Version d = Version d'"
  using assms by (simp add: dep_entry_def)

lemma insort_key_split: "\<exists>ys zs. xs = ys @ zs \<and> insort_key f x xs = ys @ x # zs"
proof (induction xs)
  case Nil
  show ?case by simp
next
  case (Cons a xs)
  show ?case
  proof (cases "f x \<le> f a")
    case True
    then have "a # xs = [] @ a # xs \<and> insort_key f x (a # xs) = [] @ x # a # xs" by simp
    then show ?thesis by blast
  next
    case False
    from Cons.IH obtain ys zs where "xs = ys @ zs" and "insort_key f x xs = ys @ x # zs" by blast
    with False have "a # xs = (a # ys) @ zs \<and> insort_key f x (a # xs) = (a # ys) @ x # zs"
      by simp
    then show ?thesis by blast
  qed
qed

text \<open>
  The entries of a sorted list with one more dependency, inserted at two places: when
  the module names hold no colon and the other dependencies have other modules, the two
  strings are equal only if the two dependencies have the same module and version.
\<close>

lemma entries_inserted_eq:
  assumes split: "E1 @ E2 = F1 @ F2"
    and eq: "concat (map dep_entry (E1 @ x # E2)) = concat (map dep_entry (F1 @ x' # F2))"
    and cx: "CHR '':'' \<notin> set (Module x)" and cx': "CHR '':'' \<notin> set (Module x')"
    and cE: "\<forall>d\<in>set (E1 @ E2). CHR '':'' \<notin> set (Module d)"
    and nx: "Module x \<notin> Module ` set (E1 @ E2)"
    and nx': "Module x' \<notin> Module ` set (E1 @ E2)"
  shows "Module x = Module x' \<and> Version x = Version x'"
proof -
  let ?c = "\<lambda>ds. concat (map dep_entry ds)"
  have same: "Module x = Module x' \<and> Version x = Version x'" if "dep_entry x = dep_entry x'"
  proof -
    from that have "dep_entry x @ [] = dep_entry x' @ []" by simp
    from dep_entry_eq [OF cx cx' this] show ?thesis by simp
  qed
  from split obtain G where "(E1 = F1 @ G \<and> G @ E2 = F2) \<or> (E1 @ G = F1 \<and> E2 = G @ F2)"
    by (auto simp: append_eq_append_conv2)
  then show ?thesis
  proof
    assume a: "E1 = F1 @ G \<and> G @ E2 = F2"
    with eq have "?c F1 @ (?c G @ dep_entry x) @ ?c E2 = ?c F1 @ (dep_entry x' @ ?c G) @ ?c E2"
      by auto
    then have g: "?c G @ dep_entry x = dep_entry x' @ ?c G" by simp
    show ?thesis
    proof (cases G)
      case Nil
      with g show ?thesis by (simp add: same)
    next
      case (Cons g G')
      with g have "dep_entry g @ (?c G' @ dep_entry x) = dep_entry x' @ ?c G" by simp
      moreover from a Cons have "g \<in> set E1" by simp
      then have gE: "g \<in> set (E1 @ E2)" by simp
      from gE cE have "CHR '':'' \<notin> set (Module g)" by blast
      ultimately have "Module g = Module x'" using cx' by (blast dest: dep_entry_eq)
      with gE nx' show ?thesis by (metis imageI)
    qed
  next
    assume a: "E1 @ G = F1 \<and> E2 = G @ F2"
    with eq have "?c E1 @ (dep_entry x @ ?c G) @ ?c F2 = ?c E1 @ (?c G @ dep_entry x') @ ?c F2"
      by auto
    then have g: "dep_entry x @ ?c G = ?c G @ dep_entry x'" by simp
    show ?thesis
    proof (cases G)
      case Nil
      with g show ?thesis by (simp add: same)
    next
      case (Cons g G')
      with g have "dep_entry x @ ?c G = dep_entry g @ (?c G' @ dep_entry x')" by simp
      moreover from a Cons have "g \<in> set E2" by simp
      then have gE: "g \<in> set (E1 @ E2)" by simp
      from gE cE have "CHR '':'' \<notin> set (Module g)" by blast
      ultimately have "Module x = Module g" using cx by (blast dest: dep_entry_eq)
      with gE nx show ?thesis by (metis imageI)
    qed
  qed
qed

lemma sort_key_update:
  assumes "i < length ds" and "distinct (map f (ds[i := x]))"
  shows "sort_key f (ds[i := x]) = insort_key f x (sort_key f (take i ds @ drop (Suc i) ds))"
proof -
  have u: "ds[i := x] = take i ds @ x # drop (Suc i) ds"
    using assms(1) by (rule upd_conv_take_nth_drop)
  have "mset (ds[i := x]) = mset (x # (take i ds @ drop (Suc i) ds))"
    by (simp add: u)
  moreover from assms(2) have "inj_on f (set (ds[i := x]))"
    by (simp add: distinct_map)
  ultimately have "sort_key f (ds[i := x]) = sort_key f (x # (take i ds @ drop (Suc i) ds))"
    by (intro sort_key_eq_sort_key)
  then show ?thesis by simp
qed

lemma colon_free_iff: "colon_free ds \<longleftrightarrow> (\<forall>d\<in>set ds. CHR '':'' \<notin> set (Module d))"
  by (simp add: colon_free_def list_all_iff)

lemma bar_free_iff: "bar_free ds \<longleftrightarrow> (\<forall>d\<in>set ds. CHR ''|'' \<notin> set (Version d))"
  by (simp add: bar_free_def list_all_iff)

lemma plain_names_iff: "plain_names ds \<longleftrightarrow> colon_free ds \<and> bar_free ds"
  by (auto simp: plain_names_def colon_free_def bar_free_def list_all_iff)

lemma BuildKey_deps_eq:
  "BuildKey (b\<lparr>Dependencies := ds\<rparr>) = BuildKey b \<longleftrightarrow>
   concat (map dep_entry (sort_key Module ds))
     = concat (map dep_entry (sort_key Module (Dependencies b)))"
  by (simp add: BuildKey_def Let_def)

lemma BuildKey_changes_distinct:
  assumes i: "i < length (Dependencies b)"
    and d: "distinct (map Module (Dependencies b))"
    and d': "distinct (map Module ((Dependencies b)[i := x]))"
    and c: "colon_free (x # Dependencies b)"
    and eq: "BuildKey (b\<lparr>Dependencies := (Dependencies b)[i := x]\<rparr>) = BuildKey b"
  shows "Module x = Module (Dependencies b ! i) \<and> Version x = Version (Dependencies b ! i)"
proof -
  let ?ds = "Dependencies b"
  let ?R = "take i ?ds @ drop (Suc i) ?ds"
  let ?E = "sort_key Module ?R"
  have self: "?ds[i := ?ds ! i] = ?ds" by simp
  from d have dself: "distinct (map Module (?ds[i := ?ds ! i]))" by (simp only: self)
  from sort_key_update [OF i dself] have s: "sort_key Module ?ds = insort_key Module (?ds ! i) ?E"
    by (simp only: self)
  from sort_key_update [OF i d'] have s': "sort_key Module (?ds[i := x]) = insort_key Module x ?E" .
  from insort_key_split [of ?E Module "?ds ! i"] obtain E1 E2 where
    E: "?E = E1 @ E2" and iE: "insort_key Module (?ds ! i) ?E = E1 @ (?ds ! i) # E2" by blast
  from insort_key_split [of ?E Module x] obtain F1 F2 where
    F: "?E = F1 @ F2" and iF: "insort_key Module x ?E = F1 @ x # F2" by blast
  from eq have "concat (map dep_entry (F1 @ x # F2)) = concat (map dep_entry (E1 @ (?ds ! i) # E2))"
    by (simp only: BuildKey_deps_eq s s' iE iF)
  then have k: "concat (map dep_entry (E1 @ (?ds ! i) # E2)) = concat (map dep_entry (F1 @ x # F2))"
    by (rule sym)
  have setE: "set (E1 @ E2) = set ?R" using E by (metis set_sort)
  have sub: "set ?R \<subseteq> set ?ds" by (auto dest: in_set_takeD in_set_dropD)
  from i have mem: "?ds ! i \<in> set ?ds" by simp
  from c have cx: "CHR '':'' \<notin> set (Module x)" and call: "\<forall>d\<in>set ?ds. CHR '':'' \<notin> set (Module d)"
    by (simp_all add: colon_free_iff)
  from call mem have ci: "CHR '':'' \<notin> set (Module (?ds ! i))" by blast
  from call sub setE have cE: "\<forall>d\<in>set (E1 @ E2). CHR '':'' \<notin> set (Module d)" by blast
  have ds: "?ds = take i ?ds @ (?ds ! i) # drop (Suc i) ?ds"
    using i by (rule id_take_nth_drop)
  from d have "distinct (map Module (take i ?ds @ (?ds ! i) # drop (Suc i) ?ds))"
    by (simp only: ds [symmetric])
  then have "Module (?ds ! i) \<notin> Module ` set ?R" by auto
  with setE have ni: "Module (?ds ! i) \<notin> Module ` set (E1 @ E2)" by simp
  have "?ds[i := x] = take i ?ds @ x # drop (Suc i) ?ds"
    using i by (rule upd_conv_take_nth_drop)
  with d' have "distinct (map Module (take i ?ds @ x # drop (Suc i) ?ds))" by simp
  then have "Module x \<notin> Module ` set ?R" by auto
  with setE have nx: "Module x \<notin> Module ` set (E1 @ E2)" by simp
  have split: "E1 @ E2 = F1 @ F2" using E F by simp
  from entries_inserted_eq [OF split k ci cx cE ni nx] show ?thesis by simp
qed

text \<open>
  Replacing a dependency by one with the same module leaves every other dependency in
  its place in the sorted list.
\<close>

lemma insort_key_same_key:
  assumes "f x = f y"
  shows "\<exists>A' B'. insort_key f a (A @ y # B) = A' @ y # B'
              \<and> insort_key f a (A @ x # B) = A' @ x # B'"
proof (induction A)
  case Nil
  show ?case
  proof (cases "f a \<le> f y")
    case True
    with assms have "insort_key f a ([] @ y # B) = [a] @ y # B
        \<and> insort_key f a ([] @ x # B) = [a] @ x # B" by simp
    then show ?thesis by blast
  next
    case False
    with assms have "insort_key f a ([] @ y # B) = [] @ y # insort_key f a B
        \<and> insort_key f a ([] @ x # B) = [] @ x # insort_key f a B" by simp
    then show ?thesis by blast
  qed
next
  case (Cons c A)
  show ?case
  proof (cases "f a \<le> f c")
    case True
    then have "insort_key f a ((c # A) @ y # B) = (a # c # A) @ y # B
        \<and> insort_key f a ((c # A) @ x # B) = (a # c # A) @ x # B" by simp
    then show ?thesis by blast
  next
    case False
    from Cons.IH obtain A' B' where "insort_key f a (A @ y # B) = A' @ y # B'"
      and "insort_key f a (A @ x # B) = A' @ x # B'" by blast
    with False have "insort_key f a ((c # A) @ y # B) = (c # A') @ y # B'
        \<and> insort_key f a ((c # A) @ x # B) = (c # A') @ x # B'" by simp
    then show ?thesis by blast
  qed
qed

lemma insort_key_same_key_new:
  assumes "f x = f y"
  shows "\<exists>A B. insort_key f y S = A @ y # B \<and> insort_key f x S = A @ x # B"
proof (induction S)
  case Nil
  have "insort_key f y [] = [] @ y # [] \<and> insort_key f x [] = [] @ x # []" by simp
  then show ?case by blast
next
  case (Cons c S)
  show ?case
  proof (cases "f y \<le> f c")
    case True
    with assms have "insort_key f y (c # S) = [] @ y # c # S
        \<and> insort_key f x (c # S) = [] @ x # c # S" by simp
    then show ?thesis by blast
  next
    case False
    from Cons.IH obtain A B where "insort_key f y S = A @ y # B"
      and "insort_key f x S = A @ x # B" by blast
    with False assms have "insort_key f y (c # S) = (c # A) @ y # B
        \<and> insort_key f x (c # S) = (c # A) @ x # B" by simp
    then show ?thesis by blast
  qed
qed

lemma sort_key_update_same_key:
  "i < length ds \<Longrightarrow> f x = f (ds ! i) \<Longrightarrow>
   \<exists>A B. sort_key f ds = A @ (ds ! i) # B \<and> sort_key f (ds[i := x]) = A @ x # B"
proof (induction ds arbitrary: i)
  case Nil
  then show ?case by simp
next
  case (Cons a ds)
  show ?case
  proof (cases i)
    case 0
    with Cons.prems have "f x = f a" by simp
    from insort_key_same_key_new [where f = f and x = x and y = a and S = "sort_key f ds", OF this]
      0 show ?thesis by simp
  next
    case (Suc k)
    with Cons.prems have k: "k < length ds" and fx: "f x = f (ds ! k)" by simp_all
    from Cons.IH [OF k fx] obtain A B where s: "sort_key f ds = A @ (ds ! k) # B"
      and s': "sort_key f (ds[k := x]) = A @ x # B" by blast
    from insort_key_same_key [where f = f and x = x and y = "ds ! k" and a = a and A = A
        and B = B, OF fx] obtain A' B' where
      "insort_key f a (A @ (ds ! k) # B) = A' @ (ds ! k) # B'"
      and "insort_key f a (A @ x # B) = A' @ x # B'" by blast
    with s s' Suc have "sort_key f (a # ds) = A' @ ((a # ds) ! i) # B'
        \<and> sort_key f ((a # ds)[i := x]) = A' @ x # B'" by simp
    then show ?thesis by blast
  qed
qed

lemma BuildKey_version_change:
  assumes i: "i < length (Dependencies b)"
    and m: "Module x = Module (Dependencies b ! i)"
    and eq: "BuildKey (b\<lparr>Dependencies := (Dependencies b)[i := x]\<rparr>) = BuildKey b"
  shows "Version x = Version (Dependencies b ! i)"
proof -
  from sort_key_update_same_key [OF i m] obtain A B where
    s: "sort_key Module (Dependencies b) = A @ (Dependencies b ! i) # B"
    and s': "sort_key Module ((Dependencies b)[i := x]) = A @ x # B" by blast
  from eq have "concat (map dep_entry (A @ x # B))
      = concat (map dep_entry (A @ (Dependencies b ! i) # B))"
    by (simp only: BuildKey_deps_eq s s')
  then have "dep_entry x = dep_entry (Dependencies b ! i)" by simp
  with m show ?thesis by (rule dep_entry_same_module)
qed

lemma BuildKey_module_change:
  assumes i: "i < length (Dependencies b)"
    and m: "Module x \<noteq> Module (Dependencies b ! i)"
    and c: "colon_free (x # Dependencies b)"
    and p: "distinct (map Module (Dependencies b))
              \<and> distinct (map Module ((Dependencies b)[i := x]))
            \<or> bar_free (x # Dependencies b)"
  shows "BuildKey (b\<lparr>Dependencies := (Dependencies b)[i := x]\<rparr>) \<noteq> BuildKey b"
proof
  assume eq: "BuildKey (b\<lparr>Dependencies := (Dependencies b)[i := x]\<rparr>) = BuildKey b"
  from p show False
  proof
    assume "distinct (map Module (Dependencies b))
              \<and> distinct (map Module ((Dependencies b)[i := x]))"
    then have d: "distinct (map Module (Dependencies b))"
      and d': "distinct (map Module ((Dependencies b)[i := x]))" by simp_all
    from BuildKey_changes_distinct [OF i d d' c eq] m show False by simp
  next
    assume "bar_free (x # Dependencies b)"
    with c have "plain_names (Dependencies b)" and "plain_names [x]"
      by (simp_all add: plain_names_iff colon_free_def bar_free_def)
    moreover from m have "module_version x \<noteq> module_version (Dependencies b ! i)"
      by (simp add: module_version_def)
    ultimately have "BuildKey (b\<lparr>Dependencies := (Dependencies b)[i := x]\<rparr>) \<noteq> BuildKey b"
      using i by (intro BuildKey_changes)
    with eq show False by simp
  qed
qed

lemma BuildKey_format:
  "\<exists>sel deps. sorted sel \<and> mset sel = mset (Selectors b)
     \<and> sorted (map Module deps) \<and> mset deps = mset (Dependencies b)
     \<and> (\<forall>m. filter (\<lambda>d. Module d = m) deps = filter (\<lambda>d. Module d = m) (Dependencies b))
     \<and> BuildKey b = ''selectors='' @ strings_Join sel '','' @ '';dependencies=''
                       @ concat (map (\<lambda>d. Module d @ '':'' @ Version d @ ''|'') deps)"
proof -
  have e: "dep_entry = (\<lambda>d. Module d @ '':'' @ Version d @ ''|'')"
    by (rule ext) (simp add: dep_entry_def)
  have "sorted (sort (Selectors b)) \<and> mset (sort (Selectors b)) = mset (Selectors b)
     \<and> sorted (map Module (sort_key Module (Dependencies b)))
     \<and> mset (sort_key Module (Dependencies b)) = mset (Dependencies b)
     \<and> (\<forall>m. filter (\<lambda>d. Module d = m) (sort_key Module (Dependencies b))
              = filter (\<lambda>d. Module d = m) (Dependencies b))
     \<and> BuildKey b = ''selectors='' @ strings_Join (sort (Selectors b)) '','' @ '';dependencies=''
          @ concat (map (\<lambda>d. Module d @ '':'' @ Version d @ ''|'')
                        (sort_key Module (Dependencies b)))"
    by (simp add: BuildKey_def Let_def e sort_key_stable)
  then show ?thesis by blast
qed

lemmas build_defs =
  key_build_def key_build_permuted_def key_build_retargeted_def twice_build_def
  twice_build_permuted_def colon_build_def colon_build_changed_def bar_build_def
  bar_build_changed_def

text \<open>
  C8, as the code has it. BuildKey is the string
  \<^verbatim>\<open>selectors=<csv>;dependencies=<module>:<version>|...\<close> over the selectors sorted
  ascending and the dependencies sorted ascending by module, by a stable sort:
  dependencies of the same module keep the order they are given in. Two blocks that are
  equal up to a permutation of the selectors and of the dependencies have the same key
  when no module is named twice. Replacing a dependency by one of the same module and
  another version always changes the key. Replacing it by one of another module changes
  the key when no module name holds a colon and, besides, either no module is named twice,
  before and after, or no version holds a bar. The targets do not count.
\<close>

theorem BuildKey_canonical:
  "(\<exists>sel deps. sorted sel \<and> mset sel = mset (Selectors b)
        \<and> sorted (map Module deps) \<and> mset deps = mset (Dependencies b)
        \<and> (\<forall>m. filter (\<lambda>d. Module d = m) deps = filter (\<lambda>d. Module d = m) (Dependencies b))
        \<and> BuildKey b = ''selectors='' @ strings_Join sel '','' @ '';dependencies=''
                          @ concat (map (\<lambda>d. Module d @ '':'' @ Version d @ ''|'') deps))
   \<and> (mset (Selectors b) = mset (Selectors b') \<and> mset (Dependencies b) = mset (Dependencies b')
        \<and> distinct (map Module (Dependencies b))
      \<longrightarrow> BuildKey b = BuildKey b')
   \<and> (i < length (Dependencies b)
        \<and> Module d = Module (Dependencies b ! i) \<and> Version d \<noteq> Version (Dependencies b ! i)
      \<longrightarrow> BuildKey (b\<lparr>Dependencies := (Dependencies b)[i := d]\<rparr>) \<noteq> BuildKey b)
   \<and> (j < length (Dependencies b)
        \<and> Module e \<noteq> Module (Dependencies b ! j)
        \<and> colon_free (e # Dependencies b)
        \<and> (distinct (map Module (Dependencies b))
              \<and> distinct (map Module ((Dependencies b)[j := e]))
            \<or> bar_free (e # Dependencies b))
      \<longrightarrow> BuildKey (b\<lparr>Dependencies := (Dependencies b)[j := e]\<rparr>) \<noteq> BuildKey b)
   \<and> (Selectors b = Selectors b''
        \<and> map Module (Dependencies b) = map Module (Dependencies b'')
        \<and> map Version (Dependencies b) = map Version (Dependencies b'')
      \<longrightarrow> BuildKey b = BuildKey b'')"
proof (intro conjI impI)
  show "\<exists>sel deps. sorted sel \<and> mset sel = mset (Selectors b)
        \<and> sorted (map Module deps) \<and> mset deps = mset (Dependencies b)
        \<and> (\<forall>m. filter (\<lambda>d. Module d = m) deps = filter (\<lambda>d. Module d = m) (Dependencies b))
        \<and> BuildKey b = ''selectors='' @ strings_Join sel '','' @ '';dependencies=''
                          @ concat (map (\<lambda>d. Module d @ '':'' @ Version d @ ''|'') deps)"
    by (rule BuildKey_format)
next
  assume "mset (Selectors b) = mset (Selectors b') \<and> mset (Dependencies b) = mset (Dependencies b')
        \<and> distinct (map Module (Dependencies b))"
  then show "BuildKey b = BuildKey b'"
    by (intro BuildKey_permutation) simp_all
next
  assume a: "i < length (Dependencies b)
        \<and> Module d = Module (Dependencies b ! i) \<and> Version d \<noteq> Version (Dependencies b ! i)"
  show "BuildKey (b\<lparr>Dependencies := (Dependencies b)[i := d]\<rparr>) \<noteq> BuildKey b"
  proof
    assume "BuildKey (b\<lparr>Dependencies := (Dependencies b)[i := d]\<rparr>) = BuildKey b"
    with a have "Version d = Version (Dependencies b ! i)"
      by (intro BuildKey_version_change) simp_all
    with a show False by simp
  qed
next
  assume a: "j < length (Dependencies b)
        \<and> Module e \<noteq> Module (Dependencies b ! j)
        \<and> colon_free (e # Dependencies b)
        \<and> (distinct (map Module (Dependencies b))
              \<and> distinct (map Module ((Dependencies b)[j := e]))
            \<or> bar_free (e # Dependencies b))"
  then have 1: "j < length (Dependencies b)" and 2: "Module e \<noteq> Module (Dependencies b ! j)"
    and 3: "colon_free (e # Dependencies b)"
    and 4: "distinct (map Module (Dependencies b))
              \<and> distinct (map Module ((Dependencies b)[j := e]))
            \<or> bar_free (e # Dependencies b)"
    by blast+
  show "BuildKey (b\<lparr>Dependencies := (Dependencies b)[j := e]\<rparr>) \<noteq> BuildKey b"
    by (rule BuildKey_module_change [OF 1 2 3 4])
next
  assume a: "Selectors b = Selectors b''
        \<and> map Module (Dependencies b) = map Module (Dependencies b'')
        \<and> map Version (Dependencies b) = map Version (Dependencies b'')"
  have "map module_version ds = zip (map Module ds) (map Version ds)" for ds
    by (induction ds) (simp_all add: module_version_def)
  with a have "map module_version (Dependencies b) = map module_version (Dependencies b'')"
    by simp
  with a show "BuildKey b = BuildKey b''"
    by (intro BuildKey_target_free) simp_all
qed

theorem BuildKey_canonical_witness:
  "BuildKey key_build
     = ''selectors=cgo,netgo;dependencies=dependency/a:1.0.0|dependency/b:2.0.0|''
   \<and> BuildKey key_build = BuildKey key_build_permuted
   \<and> BuildKey (key_build\<lparr>Dependencies := (Dependencies key_build)
        [0 := \<lparr>Module = ''dependency/b'', Target = [], Version = ''2.0.1''\<rparr>]\<rparr>) \<noteq> BuildKey key_build
   \<and> BuildKey (key_build\<lparr>Dependencies := (Dependencies key_build)
        [1 := \<lparr>Module = ''dependency/c'', Target = ''remote/fork'', Version = ''1.0.0''\<rparr>]\<rparr>)
       \<noteq> BuildKey key_build
   \<and> BuildKey key_build = BuildKey key_build_retargeted"
proof -
  let ?v = "\<lparr>Module = ''dependency/b'', Target = [], Version = ''2.0.1''\<rparr>"
  let ?m = "\<lparr>Module = ''dependency/c'', Target = ''remote/fork'', Version = ''1.0.0''\<rparr>"
  note th = BuildKey_canonical [of key_build key_build_permuted 0 ?v 1 ?m key_build_retargeted]
  have perm: "mset (Selectors key_build) = mset (Selectors key_build_permuted)
      \<and> mset (Dependencies key_build) = mset (Dependencies key_build_permuted)
      \<and> distinct (map Module (Dependencies key_build))"
    by (simp add: build_defs)
  have ver: "0 < length (Dependencies key_build)
      \<and> Module ?v = Module (Dependencies key_build ! 0)
      \<and> Version ?v \<noteq> Version (Dependencies key_build ! 0)"
    by (simp add: build_defs)
  have modl: "1 < length (Dependencies key_build)
      \<and> Module ?m \<noteq> Module (Dependencies key_build ! 1)
      \<and> colon_free (?m # Dependencies key_build)
      \<and> (distinct (map Module (Dependencies key_build))
            \<and> distinct (map Module ((Dependencies key_build)[1 := ?m]))
          \<or> bar_free (?m # Dependencies key_build))"
    by (simp add: build_defs colon_free_def bar_free_def)
  have tgt: "Selectors key_build = Selectors key_build_retargeted
      \<and> map Module (Dependencies key_build) = map Module (Dependencies key_build_retargeted)
      \<and> map Version (Dependencies key_build) = map Version (Dependencies key_build_retargeted)"
    by (simp add: build_defs)
  have fmt: "BuildKey key_build
     = ''selectors=cgo,netgo;dependencies=dependency/a:1.0.0|dependency/b:2.0.0|''"
    by (simp add: build_defs BuildKey_def dep_entry_def)
  from th perm have c2: "BuildKey key_build = BuildKey key_build_permuted" by blast
  from th ver have c3: "BuildKey (key_build\<lparr>Dependencies := (Dependencies key_build)[0 := ?v]\<rparr>)
      \<noteq> BuildKey key_build" by blast
  from th modl have c4: "BuildKey (key_build\<lparr>Dependencies := (Dependencies key_build)[1 := ?m]\<rparr>)
      \<noteq> BuildKey key_build" by blast
  from th tgt have c5: "BuildKey key_build = BuildKey key_build_retargeted" by blast
  from fmt c2 c3 c4 c5 show ?thesis by (intro conjI)
qed

text \<open>
  The claim as stated fails three times. The two blocks that override module \<open>m\<close> twice
  are permutations of each other and have different keys. Replacing the dependency \<open>a\<close>
  at version \<open>b:c\<close> by \<open>a:b\<close> at version \<open>c\<close> changes the module name and leaves the key
  as it was, in blocks that name no module twice and have no bar in a version: the colon
  in the module name does it. And in the block that overrides \<open>a\<close> twice, at versions
  \<open>|b:\<close> and the empty one, replacing the first override by \<open>b\<close> at version \<open>|a:\<close>
  leaves the key as it was although no module name holds a colon.
\<close>

theorem BuildKey_counterexample:
  "Selectors twice_build_permuted = Selectors twice_build
   \<and> mset (Dependencies twice_build_permuted) = mset (Dependencies twice_build)
   \<and> BuildKey twice_build_permuted \<noteq> BuildKey twice_build
   \<and> Module (Dependencies colon_build_changed ! 0) \<noteq> Module (Dependencies colon_build ! 0)
   \<and> Version (Dependencies colon_build_changed ! 0) \<noteq> Version (Dependencies colon_build ! 0)
   \<and> distinct (map Module (Dependencies colon_build))
   \<and> distinct (map Module (Dependencies colon_build_changed))
   \<and> bar_free (Dependencies colon_build_changed @ Dependencies colon_build)
   \<and> BuildKey colon_build_changed = BuildKey colon_build
   \<and> Module (Dependencies bar_build_changed ! 0) \<noteq> Module (Dependencies bar_build ! 0)
   \<and> colon_free (Dependencies bar_build_changed @ Dependencies bar_build)
   \<and> BuildKey bar_build_changed = BuildKey bar_build"
  by (simp add: build_defs BuildKey_def dep_entry_def colon_free_def bar_free_def)

section \<open>Trickle-down of the defaults\<close>

lemma or_default_simps [simp]:
  "or_default None d = d" "or_default (Some v) d = Some v"
  by (simp_all add: or_default_def)

lemma or_default_assoc: "or_default (or_default a b) c = or_default a (or_default b c)"
  by (cases a) simp_all

lemma map_of_entries [simp]: "map_of (entries m) = map_of m"
  by (simp add: entries_def AList.map_of_clearjunk)

lemma distinct_entries [simp]: "distinct (map fst (entries m))"
  by (simp add: entries_def)

lemma keys_entries: "fst ` set (entries m) = fst ` set m"
  by (simp add: entries_def AList.dom_clearjunk)

subsection \<open>copy_missing, copy_all\<close>

lemma copy_missing_map_of:
  "map_of (copy_missing src to) k = or_default (map_of to k) (map_of src k)"
proof (induction src arbitrary: to)
  case Nil
  show ?case by (cases "map_of to k") simp_all
next
  case (Cons p src)
  obtain k0 v0 where p: "p = (k0, v0)" by (cases p)
  show ?case
    unfolding p by (cases "map_of to k") (auto simp: Cons.IH AList.update_conv')
qed

lemma copy_missing_noop:
  "\<forall>k\<in>fst ` set src. map_of to k \<noteq> None \<Longrightarrow> copy_missing src to = to"
  by (induction src arbitrary: to) auto

lemma copy_missing_has_keys:
  "k \<in> fst ` set src \<Longrightarrow> map_of (copy_missing src to) k \<noteq> None"
proof -
  assume "k \<in> fst ` set src"
  then have "map_of src k \<noteq> None" by (simp add: map_of_eq_None_iff)
  then show ?thesis
    by (cases "map_of to k") (auto simp: copy_missing_map_of)
qed

lemma copy_missing_idem: "copy_missing src (copy_missing src to) = copy_missing src to"
  by (rule copy_missing_noop) (simp add: copy_missing_has_keys)

lemma copy_all_map_of:
  "distinct (map fst src) \<Longrightarrow>
   map_of (copy_all src acc) k = or_default (map_of src k) (map_of acc k)"
proof (induction src arbitrary: acc)
  case Nil
  show ?case by simp
next
  case (Cons p src)
  obtain k0 v0 where p: "p = (k0, v0)" by (cases p)
  from Cons.prems have d: "distinct (map fst src)" and n: "k0 \<notin> fst ` set src"
    by (auto simp: p)
  from n have "map_of src k0 = None" by (simp add: map_of_eq_None_iff)
  then show ?case
    unfolding p by (auto simp: Cons.IH [OF d] AList.update_conv')
qed

subsection \<open>for_groups\<close>

lemma for_groups_frame [simp]:
  "map_at (for_groups f as s) = map_at s" "fresh (for_groups f as s) = fresh s"
  by (induction as arbitrary: s) simp_all

lemma for_groups_at:
  assumes "\<And>g. f (f g) = f g"
  shows "group_at (for_groups f as s) a = (if a \<in> set as then f (group_at s a) else group_at s a)"
proof (induction as arbitrary: s)
  case Nil
  show ?case by simp
next
  case (Cons b as)
  show ?case by (simp add: Cons.IH assms)
qed


lemma or_default_None_right [simp]: "or_default a None = a"
  by (cases a) simp_all

subsection \<open>Dependencies\<close>

lemma AsMap_loop_map_of:
  "map_of (AsMap_loop d m) k = or_default (map_of (rev (map module_version d)) k) (map_of m k)"
proof (induction d arbitrary: m)
  case Nil
  show ?case by simp
next
  case (Cons dep d)
  show ?case
    by (simp add: Cons.IH AList.update_conv' module_version_def map_add_def or_default_def
        split: option.split)
qed

lemma AsMap_map_of: "map_of (AsMap d) k = map_of (rev (map module_version d)) k"
  by (cases "map_of (rev (map module_version d)) k") (simp_all add: AsMap_def AsMap_loop_map_of)

lemma AsMap_None: "map_of (AsMap d) k = None \<longleftrightarrow> k \<notin> Module ` set d"
  by (simp add: AsMap_map_of map_of_eq_None_iff image_image module_version_def)

lemma ApplyDefaults_loop_eq:
  "ApplyDefaults_loop into rest ret =
     ret @ map default_dependency (filter (\<lambda>p. map_of into (fst p) = None) rest)"
  by (induction rest arbitrary: ret) (auto simp: default_dependency_def)

lemma map_of_filter_keys:
  "map_of (filter (\<lambda>p. P (fst p)) xs) k = (if P k then map_of xs k else None)"
  by (induction xs) auto

lemma map_of_rev_distinct:
  assumes "distinct (map fst xs)"
  shows "map_of (rev xs) = map_of xs"
proof -
  from assms have "distinct (map fst (rev xs))"
    by (simp add: rev_map [symmetric])
  with assms show ?thesis
    by (simp add: map_of_inject_set)
qed

lemma module_version_default [simp]: "module_version (default_dependency p) = p"
  by (simp add: module_version_def default_dependency_def)

lemma ApplyDefaults_map_of:
  "map_of (AsMap (ApplyDefaults d defaults)) k
     = or_default (map_of (AsMap d) k) (map_of (AsMap defaults) k)"
proof (cases "d = []")
  case True
  then show ?thesis by (simp add: ApplyDefaults_def AsMap_def)
next
  case False
  let ?F = "filter (\<lambda>p. map_of (AsMap d) (fst p) = None) (entries (AsMap defaults))"
  have dF: "distinct (map fst ?F)"
    by (simp add: distinct_map_filter)
  have F: "map_of (rev ?F) k = (if map_of (AsMap d) k = None then map_of (AsMap defaults) k else None)"
    using map_of_filter_keys [of "\<lambda>k. map_of (AsMap d) k = None" "entries (AsMap defaults)" k]
    by (simp add: map_of_rev_distinct [OF dF])
  have "map module_version (ApplyDefaults d defaults) = map module_version d @ ?F"
    using False by (simp add: ApplyDefaults_def ApplyDefaults_loop_eq comp_def)
  then have "map_of (AsMap (ApplyDefaults d defaults)) k
               = map_of (rev ?F @ rev (map module_version d)) k"
    by (simp add: AsMap_map_of)
  also have "\<dots> = or_default (map_of (rev ?F) k) (map_of (AsMap d) k)"
    by (cases "map_of (rev ?F) k") (simp_all add: AsMap_map_of map_add_def)
  also have "\<dots> = or_default (map_of (AsMap d) k) (map_of (AsMap defaults) k)"
    by (cases "map_of (AsMap d) k") (simp_all add: F)
  finally show ?thesis .
qed

lemma ApplyDefaults_extends: "\<exists>added. ApplyDefaults d defaults = d @ added"
  by (cases "d = []") (simp_all add: ApplyDefaults_def ApplyDefaults_loop_eq)

lemma ApplyDefaults_idem:
  "ApplyDefaults (ApplyDefaults d defaults) defaults = ApplyDefaults d defaults"
proof -
  let ?d = "ApplyDefaults d defaults"
  have "map_of (AsMap ?d) (fst p) \<noteq> None" if "p \<in> set (entries (AsMap defaults))" for p
  proof -
    from that have "fst p \<in> fst ` set (entries (AsMap defaults))"
      by (rule imageI)
    then have "fst p \<in> fst ` set (AsMap defaults)"
      by (simp only: keys_entries)
    then have "map_of (AsMap defaults) (fst p) \<noteq> None"
      by (simp add: map_of_eq_None_iff)
    then show ?thesis
      by (cases "map_of (AsMap d) (fst p)") (auto simp: ApplyDefaults_map_of)
  qed
  then have "filter (\<lambda>p. map_of (AsMap ?d) (fst p) = None) (entries (AsMap defaults)) = []"
    by (simp add: filter_empty_conv)
  then have loop: "ApplyDefaults_loop (AsMap ?d) (entries (AsMap defaults)) ?d = ?d"
    by (simp add: ApplyDefaults_loop_eq)
  have empty: "defaults = []" if "?d = []"
    using that by (cases "d = []") (simp_all add: ApplyDefaults_def ApplyDefaults_loop_eq)
  show ?thesis
  proof (cases "?d = []")
    case True
    have a: "ApplyDefaults [] defaults = defaults"
      by (simp add: ApplyDefaults_def)
    have "ApplyDefaults ?d defaults = ApplyDefaults [] defaults"
      by (simp only: True)
    also have "\<dots> = defaults" by (rule a)
    also have "\<dots> = []" by (rule empty [OF True])
    also have "\<dots> = ?d" by (rule True [symmetric])
    finally show ?thesis .
  next
    case False
    have e: "ApplyDefaults ?d defaults = ApplyDefaults_loop (AsMap ?d) (entries (AsMap defaults)) ?d"
      using False by (subst ApplyDefaults_def) simp
    show ?thesis by (simp only: e loop)
  qed
qed


subsection \<open>The steps on a group\<close>

lemma trickle_build_idem: "trickle_build def (trickle_build def g) = trickle_build def g"
  by (simp add: trickle_build_def Let_def ApplyDefaults_idem)

lemma trickle_build_config_idem:
  "trickle_build_config gcfg (trickle_build_config gcfg g) = trickle_build_config gcfg g"
  by (simp add: trickle_build_config_def Let_def copy_missing_idem)

lemma trickleMap_lookup:
  "lookup (trickleMap src to) k = or_default (lookup to k) (lookup src k)"
proof (cases to)
  case None
  then show ?thesis
    by (cases src) (simp_all add: trickleMap_def lookup_def copy_all_map_of entries_Nil)
next
  case (Some t)
  then show ?thesis
    by (cases src) (simp_all add: trickleMap_def lookup_def copy_missing_map_of entries_Nil)
qed

lemma copy_all_has_keys:
  assumes "distinct (map fst e)" and "k \<in> fst ` set e"
  shows "map_of (copy_all e acc) k \<noteq> None"
proof -
  from assms(2) have "map_of e k \<noteq> None"
    by (simp only: map_of_eq_None_iff not_not)
  then show ?thesis
    by (cases "map_of e k") (simp_all add: copy_all_map_of [OF assms(1)])
qed

lemma copy_missing_copy_all:
  "distinct (map fst e) \<Longrightarrow> copy_missing e (copy_all e acc) = copy_all e acc"
  by (rule copy_missing_noop) (simp add: copy_all_has_keys)

lemma trickleMap_idem: "trickleMap src (trickleMap src to) = trickleMap src to"
  by (cases to) (simp_all add: trickleMap_def Let_def copy_missing_idem copy_missing_copy_all)

lemma trickle_run_idem: "trickle_run def (trickle_run def g) = trickle_run def g"
  by (simp add: trickle_run_def Let_def trickleMap_idem)

lemma apply_parameter_defaults_idem:
  "apply_parameter_defaults ds (apply_parameter_defaults ds g) = apply_parameter_defaults ds g"
  by (simp add: apply_parameter_defaults_def Let_def copy_missing_idem)

lemma parameter_defaults_map_of:
  "parameter_defaults x ps acc = Inr defaults \<Longrightarrow> distinct (map fst ps) \<Longrightarrow>
   map_of defaults k =
     (case map_of ps k of
        None \<Rightarrow> map_of acc k
      | Some p \<Rightarrow> (case Default p of AString dv \<Rightarrow> Some dv | d \<Rightarrow> json_Marshal x d))"
proof (induction x ps acc rule: parameter_defaults.induct)
  case (1 x defaults)
  then show ?case by simp
next
  case (2 x n v ps acc)
  from "2.prems"(2) have d: "distinct (map fst ps)" and n: "map_of ps n = None"
    by (auto simp: map_of_eq_None_iff)
  show ?case
  proof (cases "Default v")
    case (AString dv)
    with "2.prems" have "parameter_defaults x ps (AList.update n dv acc) = Inr defaults" by simp
    from "2.IH"(1) [OF AString this d] n AString show ?thesis
      by (auto simp: AList.update_conv' split: option.splits)
  next
    case (AInt i)
    with "2.prems" obtain data where m: "json_Marshal x (Default v) = Some data"
      and r: "parameter_defaults x ps (AList.update n data acc) = Inr defaults"
      by (auto split: option.splits)
    from "2.IH"(2) [OF AInt _ r d] m n AInt show ?thesis
      by (auto simp: AList.update_conv' split: option.splits)
  next
    case (ABool b)
    with "2.prems" obtain data where m: "json_Marshal x (Default v) = Some data"
      and r: "parameter_defaults x ps (AList.update n data acc) = Inr defaults"
      by (auto split: option.splits)
    from "2.IH"(3) [OF ABool _ r d] m n ABool show ?thesis
      by (auto simp: AList.update_conv' split: option.splits)
  next
    case (AList l)
    with "2.prems" obtain data where m: "json_Marshal x (Default v) = Some data"
      and r: "parameter_defaults x ps (AList.update n data acc) = Inr defaults"
      by (auto split: option.splits)
    from "2.IH"(4) [OF AList _ r d] m n AList show ?thesis
      by (auto simp: AList.update_conv' split: option.splits)
  next
    case (AMap l)
    with "2.prems" obtain data where m: "json_Marshal x (Default v) = Some data"
      and r: "parameter_defaults x ps (AList.update n data acc) = Inr defaults"
      by (auto split: option.splits)
    from "2.IH"(5) [OF AMap _ r d] m n AMap show ?thesis
      by (auto simp: AList.update_conv' split: option.splits)
  next
    case (AFloat f)
    with "2.prems" obtain data where m: "json_Marshal x (Default v) = Some data"
      and r: "parameter_defaults x ps (AList.update n data acc) = Inr defaults"
      by (auto split: option.splits)
    from "2.IH"(6) [OF AFloat _ r d] m n AFloat show ?thesis
      by (auto simp: AList.update_conv' split: option.splits)
  next
    case ANil
    with "2.prems" obtain data where m: "json_Marshal x (Default v) = Some data"
      and r: "parameter_defaults x ps (AList.update n data acc) = Inr defaults"
      by (auto split: option.splits)
    from "2.IH"(7) [OF ANil _ r d] m n ANil show ?thesis
      by (auto simp: AList.update_conv' split: option.splits)
  qed
qed


lemma apply_manifest_config_group_at [simp]:
  "group_at (fst (apply_manifest_config s r bcfg)) = group_at s"
  by (cases r) (simp_all add: apply_manifest_config_def Let_def)

lemma apply_builder_config_frame:
  assumes "apply_builder_config s c m = (s2, c2)"
  shows "group_at s2 = group_at s" and "Groups c2 = Groups c"
    and "Global_Build (Global c2) = Global_Build (Global c)"
  using assms
  by (auto simp: apply_builder_config_def apply_manifest_config_def Let_def
      split: option.splits prod.splits)

lemma apply_runner_config_frame:
  assumes "apply_runner_config s c m = (s2, c2)"
  shows "group_at s2 = group_at s" and "Groups c2 = Groups c"
    and "Global_Run (Global c2) = Global_Run (Global c)"
    and "Case (Global c2) = Case (Global c)"
  using assms
  by (auto simp: apply_runner_config_def apply_manifest_config_def Let_def
      split: option.splits prod.splits)

lemma trickle_build_defaults_at:
  "a \<in> set (Groups c) \<Longrightarrow>
   group_at (trickle_build_defaults s c) a =
     (case Global_Build (Global c) of
        Some def \<Rightarrow> trickle_build def (group_at s a)
      | None \<Rightarrow> group_at s a)"
  by (simp add: trickle_build_defaults_def for_groups_at [OF trickle_build_idem]
      split: option.splits)

lemma trickle_build_defaults_map_at [simp]:
  "map_at (trickle_build_defaults s c) = map_at s"
  by (simp add: trickle_build_defaults_def split: option.splits)

lemma trickle_global_build_config_at:
  "a \<in> set (Groups c) \<Longrightarrow>
   group_at (trickle_global_build_config s c) a =
     (if map_len (global_map s (Global_BuildConfig (Global c))) > 0
      then trickle_build_config (global_map s (Global_BuildConfig (Global c))) (group_at s a)
      else group_at s a)"
  by (simp add: trickle_global_build_config_def Let_def
      for_groups_at [OF trickle_build_config_idem])

lemma trickle_global_build_config_map_at [simp]:
  "map_at (trickle_global_build_config s c) = map_at s"
  by (simp add: trickle_global_build_config_def Let_def)

lemma global_map_cong: "map_at s = map_at s' \<Longrightarrow> global_map s r = global_map s' r"
  by (cases r) (simp_all add: global_map_def)

lemma PrepareForBuild_Ok:
  assumes "PrepareForBuild s c m = (s', Ok c')"
  obtains s2 where
    "apply_builder_config s (c\<lparr>Global := (Global c)\<lparr>Plan := Name m\<rparr>\<rparr>) m = (s2, c')"
    "s' = trickle_global_build_config (trickle_build_defaults s2 c') c'"
  using assms
  by (auto simp: PrepareForBuild_def Let_def split: if_splits prod.splits)

lemma PrepareForBuild_group:
  assumes "PrepareForBuild s c m = (s', Ok c')" and "a \<in> set (Groups c)"
  shows "group_at s' a =
     (let g1 = (case Global_Build (Global c) of
                  Some def \<Rightarrow> trickle_build def (group_at s a)
                | None \<Rightarrow> group_at s a);
          gcfg = global_map s' (Global_BuildConfig (Global c'))
      in if map_len gcfg > 0 then trickle_build_config gcfg g1 else g1)"
proof -
  from assms(1) obtain s2 where
    a: "apply_builder_config s (c\<lparr>Global := (Global c)\<lparr>Plan := Name m\<rparr>\<rparr>) m = (s2, c')"
    and s': "s' = trickle_global_build_config (trickle_build_defaults s2 c') c'"
    by (rule PrepareForBuild_Ok)
  note fr = apply_builder_config_frame [OF a]
  from fr assms(2) have in': "a \<in> set (Groups c')" by simp
  have gm: "global_map s' (Global_BuildConfig (Global c'))
          = global_map (trickle_build_defaults s2 c') (Global_BuildConfig (Global c'))"
    by (rule global_map_cong) (simp add: s')
  have g2: "group_at s2 a = group_at s a"
    by (simp only: fr(1))
  show ?thesis
    unfolding gm Let_def
    by (simp add: s' trickle_global_build_config_at [OF in'] trickle_build_defaults_at [OF in']
        fr(3) g2 split: option.split)
qed

lemma PrepareForRun_Ok:
  assumes "PrepareForRun x s c m = (s', Ok c')"
  obtains tcase s2 defaults where
    "TestCaseByName m (Case (Global c)) = Some tcase"
    "apply_runner_config s (c\<lparr>Global := (Global c)\<lparr>Plan := Name m\<rparr>\<rparr>) m = (s2, c')"
    "parameter_defaults x (entries (Parameters tcase)) [] = Inr defaults"
    "s' = for_groups (apply_parameter_defaults defaults) (Groups c') (trickle_run_defaults s2 c')"
  using assms
  by (auto simp: PrepareForRun_def Let_def split: if_splits prod.splits option.splits sum.splits)

lemma trickle_run_defaults_at:
  "a \<in> set (Groups c) \<Longrightarrow>
   group_at (trickle_run_defaults s c) a =
     (case Global_Run (Global c) of
        Some def \<Rightarrow> trickle_run def (group_at s a)
      | None \<Rightarrow> group_at s a)"
  by (simp add: trickle_run_defaults_def for_groups_at [OF trickle_run_idem]
      split: option.splits)

lemma PrepareForRun_group:
  assumes "PrepareForRun x s c m = (s', Ok c')" and "a \<in> set (Groups c)"
  obtains tcase defaults where
    "TestCaseByName m (Case (Global c)) = Some tcase"
    "parameter_defaults x (entries (Parameters tcase)) [] = Inr defaults"
    "group_at s' a = apply_parameter_defaults defaults
       (case Global_Run (Global c) of
          Some def \<Rightarrow> trickle_run def (group_at s a)
        | None \<Rightarrow> group_at s a)"
proof -
  from assms(1) obtain tcase s2 defaults where
    tc: "TestCaseByName m (Case (Global c)) = Some tcase"
    and a: "apply_runner_config s (c\<lparr>Global := (Global c)\<lparr>Plan := Name m\<rparr>\<rparr>) m = (s2, c')"
    and pd: "parameter_defaults x (entries (Parameters tcase)) [] = Inr defaults"
    and s': "s' = for_groups (apply_parameter_defaults defaults) (Groups c') (trickle_run_defaults s2 c')"
    by (rule PrepareForRun_Ok)
  note fr = apply_runner_config_frame [OF a]
  from fr assms(2) have in': "a \<in> set (Groups c')" by simp
  have g2: "group_at s2 a = group_at s a"
    by (simp only: fr(1))
  have "group_at s' a = apply_parameter_defaults defaults
          (group_at (trickle_run_defaults s2 c') a)"
    using in' by (simp add: s' for_groups_at [OF apply_parameter_defaults_idem])
  also have "group_at (trickle_run_defaults s2 c') a =
       (case Global_Run (Global c) of
          Some def \<Rightarrow> trickle_run def (group_at s a)
        | None \<Rightarrow> group_at s a)"
    by (simp add: trickle_run_defaults_at [OF in'] fr(3) g2 split: option.split)
  finally show ?thesis
    using tc pd by (intro that)
qed


lemma lookup_None [simp]: "lookup None k = None"
  by (simp add: lookup_def)

lemma trickle_build_config_lookup:
  "lookup (BuildConfig (trickle_build_config gcfg g)) k
     = or_default (lookup (BuildConfig g) k) (map_of gcfg k)"
  by (cases "BuildConfig g") (simp_all add: trickle_build_config_def lookup_def copy_missing_map_of)

lemma PrepareForBuild_trickle:
  assumes "PrepareForBuild s c m = (s', Ok c')" and "a \<in> set (Groups c)"
  shows "lookup (BuildConfig (group_at s' a)) k
           = or_default (lookup (BuildConfig (group_at s a)) k)
               (map_of (global_map s' (Global_BuildConfig (Global c'))) k)"
    and "Global_Build (Global c) = Some def \<Longrightarrow>
           Selectors (Build (group_at s' a))
             = (if Selectors (Build (group_at s a)) = [] then Selectors def
                else Selectors (Build (group_at s a)))"
    and "Global_Build (Global c) = Some def \<Longrightarrow>
           map_of (AsMap (Dependencies (Build (group_at s' a)))) modl
             = or_default (map_of (AsMap (Dependencies (Build (group_at s a)))) modl)
                 (map_of (AsMap (Dependencies def)) modl)"
    and "Global_Build (Global c) = Some def \<Longrightarrow>
           \<exists>added. Dependencies (Build (group_at s' a))
                      = Dependencies (Build (group_at s a)) @ added"
    and "Global_Build (Global c) = None \<Longrightarrow> Build (group_at s' a) = Build (group_at s a)"
proof -
  let ?g1 = "case Global_Build (Global c) of
               Some def \<Rightarrow> trickle_build def (group_at s a) | None \<Rightarrow> group_at s a"
  let ?gcfg = "global_map s' (Global_BuildConfig (Global c'))"
  have g: "group_at s' a = (if map_len ?gcfg > 0 then trickle_build_config ?gcfg ?g1 else ?g1)"
    using PrepareForBuild_group [OF assms] by (simp add: Let_def)
  have bc1: "BuildConfig ?g1 = BuildConfig (group_at s a)"
    by (simp add: trickle_build_def Let_def split: option.split)
  have b: "Build (group_at s' a) = Build ?g1"
    by (simp add: g trickle_build_config_def Let_def)
  show "lookup (BuildConfig (group_at s' a)) k
           = or_default (lookup (BuildConfig (group_at s a)) k) (map_of ?gcfg k)"
  proof (cases "map_len ?gcfg > 0")
    case True
    then show ?thesis by (simp add: g trickle_build_config_lookup bc1)
  next
    case False
    then have "?gcfg = []" by (simp add: map_len_0)
    with False show ?thesis by (simp add: g bc1)
  qed
  show "Selectors (Build (group_at s' a))
             = (if Selectors (Build (group_at s a)) = [] then Selectors def
                else Selectors (Build (group_at s a)))" if "Global_Build (Global c) = Some def"
    using that by (simp add: b trickle_build_def Let_def)
  show "map_of (AsMap (Dependencies (Build (group_at s' a)))) modl
             = or_default (map_of (AsMap (Dependencies (Build (group_at s a)))) modl)
                 (map_of (AsMap (Dependencies def)) modl)" if "Global_Build (Global c) = Some def"
    using that by (simp add: b trickle_build_def Let_def ApplyDefaults_map_of)
  show "\<exists>added. Dependencies (Build (group_at s' a))
                      = Dependencies (Build (group_at s a)) @ added"
    if "Global_Build (Global c) = Some def"
    using that ApplyDefaults_extends [of "Dependencies (Build (group_at s a))" "Dependencies def"]
    by (simp add: b trickle_build_def Let_def)
  show "Build (group_at s' a) = Build (group_at s a)" if "Global_Build (Global c) = None"
    using that by (simp add: b)
qed

lemma manifest_default_eq:
  assumes "parameter_defaults x (entries (Parameters tcase)) [] = Inr defaults"
  shows "map_of defaults k = manifest_default x tcase k"
  using parameter_defaults_map_of [OF assms, of k]
  by (simp add: manifest_default_def split: option.splits)

text \<open>
  A parameter that the manifest declares without a default has the nil interface for
  default: it is not a string, so what the groups receive is what \<^verbatim>\<open>json.Marshal\<close> makes
  of nil.
\<close>

lemma manifest_default_nil:
  "map_of (Parameters tcase) k = Some p \<Longrightarrow> Default p = ANil \<Longrightarrow>
   manifest_default x tcase k = json_Marshal x ANil"
  by (simp add: manifest_default_def)

lemma apply_parameter_defaults_lookup:
  "lookup (TestParams (Run (apply_parameter_defaults ds g))) k
     = or_default (lookup (TestParams (Run g)) k) (map_of ds k)"
  by (cases "TestParams (Run g)")
     (simp_all add: apply_parameter_defaults_def lookup_def copy_missing_map_of)

lemma PrepareForRun_trickle:
  assumes "PrepareForRun x s c m = (s', Ok c')" and "a \<in> set (Groups c)"
  shows "\<exists>tcase. TestCaseByName m (Case (Global c)) = Some tcase \<and>
           (\<forall>k. lookup (TestParams (Run (group_at s' a))) k
                  = or_default (lookup (TestParams (Run (group_at s a))) k)
                      (or_default (lookup (global_test_params c) k) (manifest_default x tcase k)))"
    and "Global_Run (Global c) = Some def \<Longrightarrow>
           lookup (Profiles (Run (group_at s' a))) k
             = or_default (lookup (Profiles (Run (group_at s a))) k) (lookup (Profiles def) k)"
    and "Global_Run (Global c) = None \<Longrightarrow>
           Profiles (Run (group_at s' a)) = Profiles (Run (group_at s a))"
proof -
  let ?g1 = "case Global_Run (Global c) of
               Some def \<Rightarrow> trickle_run def (group_at s a) | None \<Rightarrow> group_at s a"
  from assms obtain tcase defaults where
    tc: "TestCaseByName m (Case (Global c)) = Some tcase"
    and pd: "parameter_defaults x (entries (Parameters tcase)) [] = Inr defaults"
    and g: "group_at s' a = apply_parameter_defaults defaults ?g1"
    by (rule PrepareForRun_group)
  have tp1: "lookup (TestParams (Run ?g1)) k
               = or_default (lookup (TestParams (Run (group_at s a))) k)
                   (lookup (global_test_params c) k)" for k
    by (cases "Global_Run (Global c)")
       (simp_all add: global_test_params_def trickle_run_def Let_def trickleMap_lookup)
  have "lookup (TestParams (Run (group_at s' a))) k
                  = or_default (lookup (TestParams (Run (group_at s a))) k)
                      (or_default (lookup (global_test_params c) k) (manifest_default x tcase k))"
    for k
    by (simp add: g apply_parameter_defaults_lookup tp1 manifest_default_eq [OF pd]
        or_default_assoc)
  with tc show "\<exists>tcase. TestCaseByName m (Case (Global c)) = Some tcase \<and>
           (\<forall>k. lookup (TestParams (Run (group_at s' a))) k
                  = or_default (lookup (TestParams (Run (group_at s a))) k)
                      (or_default (lookup (global_test_params c) k) (manifest_default x tcase k)))"
    by blast
  have p: "Profiles (Run (group_at s' a)) = Profiles (Run ?g1)"
    by (simp add: g apply_parameter_defaults_def Let_def)
  show "lookup (Profiles (Run (group_at s' a))) k
             = or_default (lookup (Profiles (Run (group_at s a))) k) (lookup (Profiles def) k)"
    if "Global_Run (Global c) = Some def"
    using that by (simp add: p trickle_run_def Let_def trickleMap_lookup)
  show "Profiles (Run (group_at s' a)) = Profiles (Run (group_at s a))"
    if "Global_Run (Global c) = None"
    using that by (simp add: p)
qed


subsection \<open>The target of a default dependency\<close>

text \<open>
  ApplyDefaults returns the defaults themselves, targets included, to a receiver with no
  dependencies. To a receiver that has some it appends \<^verbatim>\<open>Dependency{Module, Version}\<close>
  for every default module it does not name: whatever the target of the default was,
  the appended dependency has none.
\<close>

lemma ApplyDefaults_empty: "ApplyDefaults [] defaults = defaults"
  by (simp add: ApplyDefaults_def)

lemma ApplyDefaults_appended_target:
  assumes "d \<noteq> []"
  shows "\<exists>added. ApplyDefaults d defaults = d @ added
           \<and> (\<forall>dep\<in>set added. Target dep = [])
           \<and> Module ` set added = Module ` set defaults - Module ` set d"
proof -
  let ?F = "filter (\<lambda>p. map_of (AsMap d) (fst p) = None) (entries (AsMap defaults))"
  have a: "ApplyDefaults d defaults = d @ map default_dependency ?F"
    using assms by (simp add: ApplyDefaults_def ApplyDefaults_loop_eq)
  have t: "\<forall>dep\<in>set (map default_dependency ?F). Target dep = []"
    by (auto simp: default_dependency_def)
  have "fst ` set (entries (AsMap defaults)) = Module ` set defaults"
  proof -
    have "k \<in> fst ` set (AsMap defaults) \<longleftrightarrow> k \<in> Module ` set defaults" for k
      using AsMap_None [of defaults k] by (simp add: map_of_eq_None_iff)
    then show ?thesis by (auto simp only: keys_entries)
  qed
  then have keys: "fst ` set (entries (AsMap defaults)) = Module ` set defaults" .
  have "fst ` set ?F = {k \<in> fst ` set (entries (AsMap defaults)). map_of (AsMap d) k = None}"
    by force
  also have "\<dots> = {k \<in> Module ` set defaults. k \<notin> Module ` set d}"
    by (simp only: keys AsMap_None)
  also have "\<dots> = Module ` set defaults - Module ` set d"
    by blast
  finally have "fst ` set ?F = Module ` set defaults - Module ` set d" .
  moreover have "Module ` set (map default_dependency ?F) = fst ` set ?F"
    by (simp add: image_image default_dependency_def)
  ultimately have m: "Module ` set (map default_dependency ?F)
      = Module ` set defaults - Module ` set d" by simp
  from a t m show ?thesis by blast
qed

lemma fork_PrepareForBuild:
  "snd (PrepareForBuild fork_store fork_composition example_manifest)
     = Ok (fork_composition\<lparr>Global := (Global fork_composition)\<lparr>Global_BuildConfig := Some 0\<rparr>\<rparr>)"
  by (simp add: PrepareForBuild_def example_defs prepare_simps)

text \<open>
  C7: a dependency module that is absent in a group is to carry the global default. The
  global build default below redirects \<^verbatim>\<open>github.com/ipfs/go-ipfs\<close> to a fork. The group
  without dependencies of its own receives the default as it is, target included: that
  is the first branch of ApplyDefaults. The group that overrides another module does not
  name the module either, and receives it with the version of the default and no
  target: the second branch of ApplyDefaults appends \<^verbatim>\<open>Dependency{Module, Version}\<close>. The
  two groups, which differ in nothing that concerns this module, are built against
  different code: the last two lines are what doBuild hands to the builder for each.
\<close>

theorem PrepareForBuild_drops_default_target:
  "Global_Build (Global fork_composition)
     = Some \<lparr>Selectors = [], Dependencies = [fork_default]\<rparr>
   \<and> Target fork_default = ''github.com/fork/go-ipfs''
   \<and> Dependencies (Build (group_at fork_store 0)) = [own_dependency]
   \<and> Module own_dependency \<noteq> Module fork_default
   \<and> Dependencies (Build (group_at fork_store 1)) = []
   \<and> (\<exists>c'. snd (PrepareForBuild fork_store fork_composition example_manifest) = Ok c')
   \<and> Dependencies (Build (group_at
         (fst (PrepareForBuild fork_store fork_composition example_manifest)) 0))
       = [own_dependency, fork_default\<lparr>Target := []\<rparr>]
   \<and> Dependencies (Build (group_at
         (fst (PrepareForBuild fork_store fork_composition example_manifest)) 1))
       = [fork_default]
   \<and> map_of (dependency_targets (Dependencies (Build (group_at
         (fst (PrepareForBuild fork_store fork_composition example_manifest)) 0))) [])
        ''github.com/ipfs/go-ipfs''
       = Some \<lparr>dt_Target = [], dt_Version = ''v0.5.0''\<rparr>
   \<and> map_of (dependency_targets (Dependencies (Build (group_at
         (fst (PrepareForBuild fork_store fork_composition example_manifest)) 1))) [])
        ''github.com/ipfs/go-ipfs''
       = Some \<lparr>dt_Target = ''github.com/fork/go-ipfs'', dt_Version = ''v0.5.0''\<rparr>"
  by (simp add: PrepareForBuild_def example_defs prepare_simps trickle_build_def ApplyDefaults_def
      AsMap_def entries_def)

section \<open>The build fan-out\<close>

subsection \<open>The partition of the groups by key\<close>

lemma index_groups_append:
  "index_groups (xs @ ys) i u = index_groups ys (i + length xs) (index_groups xs i u)"
  by (induction xs arbitrary: i u) (simp_all add: Let_def)

lemma index_groups_snoc:
  "index_groups (xs @ [b]) 0 [] =
     AList.update (BuildKey b)
       ((case map_of (index_groups xs 0 []) (BuildKey b) of None \<Rightarrow> [] | Some l \<Rightarrow> l)
          @ [length xs])
       (index_groups xs 0 [])"
  by (simp add: index_groups_append)

lemma index_groups_distinct: "distinct (map fst (index_groups xs 0 []))"
  by (induction xs rule: rev_induct) (simp_all add: index_groups_snoc AList.distinct_update)

lemma filter_upt_snoc:
  "filter P [0..<Suc n] = filter P [0..<n] @ (if P n then [n] else [])"
  by simp

lemma filter_key_snoc:
  "filter (\<lambda>i. BuildKey ((xs @ [b]) ! i) = key) [0..<length xs]
     = filter (\<lambda>i. BuildKey (xs ! i) = key) [0..<length xs]"
  by (rule filter_cong) (simp_all add: nth_append)

lemma filter_key_absent:
  "key \<notin> BuildKey ` set xs \<Longrightarrow> filter (\<lambda>i. BuildKey (xs ! i) = key) [0..<length xs] = []"
  by (auto simp: filter_empty_conv)

lemma index_groups_map_of:
  "map_of (index_groups xs 0 []) key =
     (if key \<in> BuildKey ` set xs
      then Some (filter (\<lambda>i. BuildKey (xs ! i) = key) [0..<length xs])
      else None)"
proof (induction xs arbitrary: key rule: rev_induct)
  case Nil
  show ?case by simp
next
  case (snoc b xs)
  show ?case
    by (simp add: index_groups_snoc AList.update_conv' snoc.IH filter_key_snoc
        filter_key_absent)
qed

lemma representatives_snoc:
  "representatives (xs @ [b]) =
     representatives xs @ (if BuildKey b \<in> BuildKey ` set xs then [] else [length xs])"
proof -
  have "filter (\<lambda>i. BuildKey ((xs @ [b]) ! i) \<notin> BuildKey ` set (take i (xs @ [b]))) [0..<length xs]
      = filter (\<lambda>i. BuildKey (xs ! i) \<notin> BuildKey ` set (take i xs)) [0..<length xs]"
    by (rule filter_cong) (simp_all add: nth_append)
  then show ?thesis
    by (simp add: representatives_def)
qed

lemma representatives_keys_set:
  "(\<lambda>i. BuildKey (xs ! i)) ` set (representatives xs) = BuildKey ` set xs"
proof (induction xs rule: rev_induct)
  case Nil
  show ?case by (simp add: representatives_def)
next
  case (snoc b xs)
  have "(\<lambda>i. BuildKey ((xs @ [b]) ! i)) ` set (representatives xs)
      = (\<lambda>i. BuildKey (xs ! i)) ` set (representatives xs)"
    by (rule image_cong) (auto simp: representatives_def nth_append)
  then show ?case
    using snoc.IH by (auto simp: representatives_snoc)
qed

lemma index_groups_keys:
  "map fst (index_groups xs 0 []) = map (\<lambda>i. BuildKey (xs ! i)) (representatives xs)"
proof (induction xs rule: rev_induct)
  case Nil
  show ?case by (simp add: representatives_def)
next
  case (snoc b xs)
  have old: "map (\<lambda>i. BuildKey ((xs @ [b]) ! i)) (representatives xs)
           = map (\<lambda>i. BuildKey (xs ! i)) (representatives xs)"
    by (rule map_cong) (auto simp: representatives_def nth_append)
  have keys: "set (map (\<lambda>i. BuildKey (xs ! i)) (representatives xs)) = BuildKey ` set xs"
    by (simp add: representatives_keys_set)
  show ?case
    by (simp add: index_groups_snoc AList.update_keys representatives_snoc old keys snoc.IH
        del: set_map)
qed

lemma alist_by_keys:
  "distinct (map fst al) \<Longrightarrow> al = map (\<lambda>k. (k, the (map_of al k))) (map fst al)"
proof (induction al)
  case Nil
  show ?case by simp
next
  case (Cons p al)
  obtain k v where p: "p = (k, v)" by (cases p)
  from Cons.prems have "k \<notin> fst ` set al" and d: "distinct (map fst al)"
    by (auto simp: p)
  then have "map (\<lambda>k'. (k', the (map_of ((k, v) # al) k'))) (map fst al)
           = map (\<lambda>k'. (k', the (map_of al k'))) (map fst al)"
    by (intro map_cong) auto
  with Cons.IH [OF d] show ?case
    by (simp add: p)
qed

lemma representatives_lt: "i \<in> set (representatives bs) \<Longrightarrow> i < length bs"
  by (simp add: representatives_def)

lemma index_groups_eq:
  "index_groups bs 0 [] = map (\<lambda>i. (BuildKey (bs ! i), class_of bs i)) (representatives bs)"
proof -
  let ?u = "index_groups bs 0 []"
  have "?u = map (\<lambda>k. (k, the (map_of ?u k))) (map fst ?u)"
    by (rule alist_by_keys) (rule index_groups_distinct)
  also have "\<dots> = map (\<lambda>i. (BuildKey (bs ! i), the (map_of ?u (BuildKey (bs ! i)))))
                      (representatives bs)"
    by (simp add: index_groups_keys comp_def)
  also have "\<dots> = map (\<lambda>i. (BuildKey (bs ! i), class_of bs i)) (representatives bs)"
    by (rule map_cong) (auto simp: index_groups_map_of class_of_def dest: representatives_lt)
  finally show ?thesis .
qed

lemma representatives_distinct_keys:
  "distinct (map (\<lambda>i. BuildKey (bs ! i)) (representatives bs))"
  using index_groups_distinct [of bs] by (simp add: index_groups_keys)

lemma length_representatives:
  "length (representatives bs) = card (BuildKey ` set bs)"
proof -
  have "card (BuildKey ` set bs) = card (set (map (\<lambda>i. BuildKey (bs ! i)) (representatives bs)))"
    by (simp add: representatives_keys_set)
  also have "\<dots> = length (map (\<lambda>i. BuildKey (bs ! i)) (representatives bs))"
    by (rule distinct_card) (rule representatives_distinct_keys)
  finally show ?thesis by simp
qed

lemma class_of_hd:
  assumes "i \<in> set (representatives bs)"
  shows "\<exists>rest. class_of bs i = i # rest"
proof -
  from assms have lt: "i < length bs" and first: "BuildKey (bs ! i) \<notin> BuildKey ` set (take i bs)"
    by (simp_all add: representatives_def)
  have split: "[0..<length bs] = [0..<i] @ i # [Suc i..<length bs]"
    using lt by (metis upt_conv_Cons upt_add_eq_append le0 le_add_diff_inverse less_imp_le_nat plus_nat.add_0)
  have "filter (\<lambda>j. BuildKey (bs ! j) = BuildKey (bs ! i)) [0..<i] = []"
  proof (rule ccontr)
    assume "filter (\<lambda>j. BuildKey (bs ! j) = BuildKey (bs ! i)) [0..<i] \<noteq> []"
    then obtain j where "j < i" "BuildKey (bs ! j) = BuildKey (bs ! i)"
      by (auto simp: filter_empty_conv)
    with lt have "BuildKey (bs ! i) \<in> BuildKey ` set (take i bs)"
      by (metis (no_types, lifting) image_eqI in_set_conv_nth length_take less_imp_le_nat
          min.absorb2 nth_take)
    with first show False by contradiction
  qed
  then show ?thesis
    unfolding class_of_def by (subst split) simp
qed

lemma class_of_mem: "j \<in> set (class_of bs i) \<longleftrightarrow> j < length bs \<and> BuildKey (bs ! j) = BuildKey (bs ! i)"
  by (auto simp: class_of_def)

subsection \<open>One fiber\<close>

lemma length_group_builds [simp]: "length (group_builds s cmp) = length (Groups cmp)"
  by (simp add: group_builds_def)

lemma build_fiber_representative:
  assumes "i \<in> set (representatives (group_builds s cmp))" and "j < length srcs"
  shows "build_fiber x e bm s cmp obj srcs j (class_of (group_builds s cmp) i) ress =
     (Some (fiber_input x e s cmp obj srcs j i),
      build_outcome bm (fiber_input x e s cmp obj srcs j i),
      fiber_write bm (fiber_input x e s cmp obj srcs j i) (class_of (group_builds s cmp) i) ress)"
proof -
  from class_of_hd [OF assms(1)] obtain rest where
    c: "class_of (group_builds s cmp) i = i # rest" by blast
  from representatives_lt [OF assms(1)] have lt: "i < length (Groups cmp)" by simp
  define inp where "inp = fiber_input x e s cmp obj srcs j i"
  have fib: "build_fiber x e bm s cmp obj srcs j (i # rest) ress =
      (case b_Build bm inp of
         (res, Some msg) \<Rightarrow> (Some inp, Err (PluginError msg), ress)
       | (None, None) \<Rightarrow> (Some inp, Panic NilDereference, ress)
       | (Some res, None) \<Rightarrow>
           (Some inp, Ok (), write_results (i # rest) (res\<lparr>BuilderID := b_ID bm\<rparr>) ress))"
    using assms(2) lt
    by (simp only: build_fiber_def inp_def fiber_input_def Let_def list.case not_le [symmetric]
        if_False)
  obtain res err where b: "b_Build bm inp = (res, err)" by (cases "b_Build bm inp")
  show ?thesis
  proof (cases err)
    case (Some msg)
    then show ?thesis
      by (cases res)
        (simp_all add: c fib b build_outcome_def fiber_write_def inp_def [symmetric])
  next
    case None
    then show ?thesis
      by (cases res)
        (simp_all add: c fib b build_outcome_def fiber_write_def inp_def [symmetric] stamped_def)
  qed
qed

subsection \<open>All fibers\<close>

lemma start_fibers_representatives:
  assumes "set rs \<subseteq> set (representatives (group_builds s cmp))"
    and "cnt + length rs \<le> length srcs"
  shows "start_fibers (build_fiber x e bm s cmp obj srcs)
           (map (\<lambda>i. (BuildKey (group_builds s cmp ! i), class_of (group_builds s cmp) i)) rs)
           cnt ress =
     (map (\<lambda>(j, i). (Some (fiber_input x e s cmp obj srcs j i),
                      build_outcome bm (fiber_input x e s cmp obj srcs j i)))
          (enumerate cnt rs),
      foldl (\<lambda>ress (j, i). fiber_write bm (fiber_input x e s cmp obj srcs j i)
                               (class_of (group_builds s cmp) i) ress)
            ress (enumerate cnt rs))"
  using assms
proof (induction rs arbitrary: cnt ress)
  case Nil
  show ?case by simp
next
  case (Cons r rs)
  from Cons.prems have r: "r \<in> set (representatives (group_builds s cmp))"
    and rs: "set rs \<subseteq> set (representatives (group_builds s cmp))"
    and c: "cnt < length srcs" and c': "Suc cnt + length rs \<le> length srcs"
    by auto
  show ?case
    by (simp add: build_fiber_representative [OF r c] Cons.IH [OF rs c'])
qed

lemma build_calls_all:
  "build_calls (map (\<lambda>(j, i). (Some (f j i), g j i)) js) = map (\<lambda>(j, i). f j i) js"
  by (induction js) auto

subsection \<open>The result slice\<close>

lemma length_write_results [simp]: "length (write_results idxs res ress) = length ress"
  by (induction idxs arbitrary: ress) simp_all

lemma write_results_nth:
  "p < length ress \<Longrightarrow>
   write_results idxs res ress ! p = (if p \<in> set idxs then Some res else ress ! p)"
  by (induction idxs arbitrary: ress) (auto simp: nth_list_update)

lemma length_fiber_write [simp]: "length (fiber_write bm inp idxs ress) = length ress"
  by (simp add: fiber_write_def split: prod.splits option.splits)

lemma fiber_write_other:
  "p \<notin> set idxs \<Longrightarrow> p < length ress \<Longrightarrow> fiber_write bm inp idxs ress ! p = ress ! p"
  by (simp add: fiber_write_def write_results_nth split: prod.splits option.splits)

lemma fiber_write_own:
  "p \<in> set idxs \<Longrightarrow> p < length ress \<Longrightarrow> b_Build bm inp = (Some res, None) \<Longrightarrow>
   fiber_write bm inp idxs ress ! p = Some (stamped bm res)"
  by (simp add: fiber_write_def write_results_nth)

lemma length_foldl_fiber_write [simp]:
  "length (foldl (\<lambda>ress (j, i). fiber_write bm (inp j i) (cls i) ress) ress js) = length ress"
  by (induction js arbitrary: ress) (auto simp: case_prod_beta)

lemma foldl_fiber_write_nth:
  assumes "distinct (map K rs)"
    and "\<And>i p. p \<in> set (cls i) \<Longrightarrow> K p = K i"
    and "(j, i) \<in> set (enumerate cnt rs)"
    and "p \<in> set (cls i)" and "p < length ress"
    and "b_Build bm (inp j i) = (Some res, None)"
  shows "foldl (\<lambda>ress (j, i). fiber_write bm (inp j i) (cls i) ress) ress (enumerate cnt rs) ! p
           = Some (stamped bm res)"
  using assms(1,3)
proof (induction rs rule: rev_induct)
  case Nil
  then show ?case by simp
next
  case (snoc r rs)
  let ?prev = "foldl (\<lambda>ress (j, i). fiber_write bm (inp j i) (cls i) ress) ress (enumerate cnt rs)"
  have en: "enumerate cnt (rs @ [r]) = enumerate cnt rs @ [(cnt + length rs, r)]"
    by (simp add: enumerate_append_eq)
  have p: "p < length ?prev" using assms(5) by simp
  show ?case
  proof (cases "(j, i) = (cnt + length rs, r)")
    case True
    with assms(4,6) p show ?thesis
      by (simp add: en fiber_write_own)
  next
    case False
    with snoc.prems(2) have mem: "(j, i) \<in> set (enumerate cnt rs)"
      by (auto simp: en)
    then have "i \<in> set rs" by (auto simp: in_set_enumerate_eq)
    then have "K i \<in> K ` set rs" by (rule imageI)
    moreover from snoc.prems(1) have "K r \<notin> K ` set rs" by simp
    ultimately have "K i \<noteq> K r" by auto
    with assms(2) [OF assms(4)] have "p \<notin> set (cls r)"
      using assms(2) [of p r] by auto
    moreover from snoc.prems(1) have "distinct (map K rs)" by simp
    ultimately show ?thesis
      using snoc.IH mem p by (simp add: en fiber_write_other)
  qed
qed

subsection \<open>The wait\<close>

lemma first_panic_None: "first_panic rs = None \<longleftrightarrow> (\<forall>r\<in>set rs. \<forall>p. r \<noteq> Panic p)"
  by (induction rs rule: first_panic.induct) auto

lemma final_sources_length:
  "final_sources x sources k = Inr srcs \<Longrightarrow> length srcs = k"
proof -
  have "duplicate_loop x sources i n acc = Inr srcs \<Longrightarrow> length srcs = length acc + n"
    for i n acc
    by (induction x sources i n acc rule: duplicate_loop.induct) (auto split: sum.splits)
  from this [of 0 k "[]"] show "final_sources x sources k = Inr srcs \<Longrightarrow> length srcs = k"
    by (auto simp: final_sources_def split: if_splits)
qed

subsection \<open>The order of the fibers\<close>

lemma entries_distinct: "distinct (map fst al) \<Longrightarrow> entries al = al"
  by (simp add: entries_def distinct_clearjunk_id)

lemma entries_index_groups [simp]: "entries (index_groups bs 0 []) = index_groups bs 0 []"
  by (rule entries_distinct) (rule index_groups_distinct)

lemma map_len_index_groups: "map_len (index_groups bs 0 []) = card (BuildKey ` set bs)"
  by (simp add: map_len_def) (simp add: index_groups_eq length_representatives)

lemma permuted_map:
  assumes "mset js = mset (map f reps)" and "inj_on f (set reps)"
  shows "\<exists>rs. js = map f rs \<and> mset rs = mset reps"
proof -
  define g where "g = the_inv_into (set reps) f"
  have gf: "g (f i) = i" if "i \<in> set reps" for i
    using that assms(2) by (simp add: g_def the_inv_into_f_f)
  from assms(1) have "set js = f ` set reps"
    by (metis mset_eq_setD set_map)
  then have fg: "f (g y) = y" if "y \<in> set js" for y
    using that gf by auto
  have a: "js = map f (map g js)"
    by (simp add: fg map_idI)
  have "image_mset (\<lambda>i. g (f i)) (mset reps) = image_mset (\<lambda>i. i) (mset reps)"
    by (rule image_mset_cong) (simp add: gf)
  then have b: "mset (map g js) = mset reps"
    by (simp add: assms(1) multiset.map_comp comp_def)
  show ?thesis by (rule exI [of _ "map g js"]) (rule conjI [OF a b])
qed

lemma inj_on_job:
  "inj_on (\<lambda>i. (BuildKey (bs ! i), class_of bs i)) (set (representatives bs))"
proof (rule inj_onI)
  fix i j
  assume i: "i \<in> set (representatives bs)" and j: "j \<in> set (representatives bs)"
    and eq: "(BuildKey (bs ! i), class_of bs i) = (BuildKey (bs ! j), class_of bs j)"
  from class_of_hd [OF i] obtain ri where ci: "class_of bs i = i # ri" by blast
  from class_of_hd [OF j] obtain rj where cj: "class_of bs j = j # rj" by blast
  from eq have "class_of bs i = class_of bs j" by (rule Pair_inject)
  then have "i # ri = j # rj" by (simp only: ci cj)
  then show "i = j" by simp
qed

lemma started_order:
  assumes "mset (range_order x (index_groups bs 0 [])) = mset (index_groups bs 0 [])"
  shows "\<exists>rs. range_order x (index_groups bs 0 []) =
                 map (\<lambda>i. (BuildKey (bs ! i), class_of bs i)) rs
             \<and> mset rs = mset (representatives bs)"
proof -
  define U where "U = index_groups bs 0 []"
  have "mset U = mset (map (\<lambda>i. (BuildKey (bs ! i), class_of bs i)) (representatives bs))"
    by (simp only: U_def index_groups_eq)
  with assms have "mset (range_order x U) =
      mset (map (\<lambda>i. (BuildKey (bs ! i), class_of bs i)) (representatives bs))"
    by (simp only: U_def)
  from permuted_map [OF this inj_on_job] show ?thesis
    by (simp only: U_def)
qed

subsection \<open>doBuild from the partition on\<close>

lemma fan_out_eq:
  assumes srcs: "final_sources x sources (card (BuildKey ` set (group_builds s cmp))) = Inr srcs"
    and ord: "range_order x (index_groups (group_builds s cmp) 0 []) =
                 map (\<lambda>i. (BuildKey (group_builds s cmp ! i), class_of (group_builds s cmp) i)) rs"
    and rs: "mset rs = mset (representatives (group_builds s cmp))"
  shows "fan_out x e bm s cmp obj sources =
     (map (\<lambda>(j, i). fiber_input x e s cmp obj srcs j i) (enumerate 0 rs),
      case first_panic (map (\<lambda>(j, i). build_outcome bm (fiber_input x e s cmp obj srcs j i))
                            (enumerate 0 rs)) of
        Some p \<Rightarrow> Panic p
      | None \<Rightarrow>
          (case first_error (finish_order x @ [0..<length rs])
                  (map (\<lambda>(j, i). build_outcome bm (fiber_input x e s cmp obj srcs j i))
                       (enumerate 0 rs)) of
             Some err \<Rightarrow> Err err
           | None \<Rightarrow>
               Ok (foldl (\<lambda>ress (j, i). fiber_write bm (fiber_input x e s cmp obj srcs j i)
                                          (class_of (group_builds s cmp) i) ress)
                         (replicate (length (Groups cmp)) None) (enumerate 0 rs))))"
proof -
  from mset_eq_setD [OF rs] have set_rs: "set rs \<subseteq> set (representatives (group_builds s cmp))"
    by simp
  from rs have "length rs = length (representatives (group_builds s cmp))"
    by (rule mset_eq_length)
  then have len: "length rs = card (BuildKey ` set (group_builds s cmp))"
    by (simp add: length_representatives)
  with final_sources_length [OF srcs] have le: "0 + length rs \<le> length srcs" by simp
  have snd_map: "map snd (map (\<lambda>(j, i). (Some (F j i), G j i)) js) = map (\<lambda>(j, i). G j i) js"
    for F :: "nat \<Rightarrow> nat \<Rightarrow> api_BuildInput" and G :: "nat \<Rightarrow> nat \<Rightarrow> unit result" and js
    by (induction js) auto
  have f: "fan_out x e bm s cmp obj sources =
     (case start_fibers (build_fiber x e bm s cmp obj srcs)
             (range_order x (index_groups (group_builds s cmp) 0 [])) 0
             (replicate (length (Groups cmp)) None) of
        (done, ress') \<Rightarrow>
          (build_calls done,
           case first_panic (map snd done) of
             Some p \<Rightarrow> Panic p
           | None \<Rightarrow>
               (case first_error (finish_order x @ [0..<length done]) (map snd done) of
                  Some err \<Rightarrow> Err err
                | None \<Rightarrow> Ok ress')))"
    by (simp add: fan_out_def group_builds_def [symmetric] map_len_index_groups srcs)
  show ?thesis
    by (simp only: f ord start_fibers_representatives [OF set_rs le] prod.case build_calls_all
        snd_map length_map length_enumerate)
qed

subsection \<open>What the builds returned\<close>

lemma build_outcome_Ok:
  assumes "build_outcome bm c = Ok ()"
  shows "\<exists>res. b_Build bm c = (Some res, None)"
proof -
  obtain res err where b: "b_Build bm c = (res, err)" by (cases "b_Build bm c")
  from assms show ?thesis
    by (cases res; cases err) (simp_all add: build_outcome_def b)
qed

lemma build_outcome_Err:
  "build_outcome bm c = Err err \<longleftrightarrow>
     build_failed bm c \<and> err = PluginError (the (snd (b_Build bm c)))"
proof -
  obtain res msg where b: "b_Build bm c = (res, msg)" by (cases "b_Build bm c")
  show ?thesis
    by (cases res; cases msg) (auto simp: build_outcome_def build_failed_def b)
qed

lemma build_outcome_Panic:
  "build_outcome bm c = Panic p \<longleftrightarrow> b_Build bm c = (None, None) \<and> p = NilDereference"
proof -
  obtain res msg where b: "b_Build bm c = (res, msg)" by (cases "b_Build bm c")
  show ?thesis
    by (cases res; cases msg) (auto simp: build_outcome_def b)
qed

lemma first_panic_builds_None:
  "\<forall>c\<in>set calls. b_Build bm c \<noteq> (None, None) \<Longrightarrow>
   first_panic (map (build_outcome bm) calls) = None"
  by (simp add: first_panic_None build_outcome_Panic)

lemma first_panic_builds_Some:
  "\<exists>c\<in>set calls. b_Build bm c = (None, None) \<Longrightarrow>
   first_panic (map (build_outcome bm) calls) = Some NilDereference"
proof (induction calls)
  case Nil
  then show ?case by simp
next
  case (Cons c calls)
  show ?case
  proof (cases "build_outcome bm c")
    case (Panic p)
    then show ?thesis using build_outcome_Panic [of bm c p] by simp
  next
    case (Ok u)
    with Cons show ?thesis by (auto simp: build_outcome_def)
  next
    case (Err err)
    with Cons show ?thesis by (auto simp: build_outcome_def)
  qed
qed

lemma first_error_builds:
  "first_error order (map (build_outcome bm) calls) =
     (case find (\<lambda>j. j < length calls \<and> build_failed bm (calls ! j)) order of
        None \<Rightarrow> None
      | Some j \<Rightarrow> Some (PluginError (the (snd (b_Build bm (calls ! j))))))"
proof (induction order)
  case Nil
  show ?case by simp
next
  case (Cons j order)
  show ?case
  proof (cases "j < length calls")
    case False
    with Cons show ?thesis by simp
  next
    case True
    show ?thesis
    proof (cases "build_outcome bm (calls ! j)")
      case (Err err)
      with build_outcome_Err [of bm "calls ! j" err]
      have "build_failed bm (calls ! j)"
        and "err = PluginError (the (snd (b_Build bm (calls ! j))))" by simp_all
      with True Err show ?thesis by simp
    next
      case (Ok u)
      then have "\<not> build_failed bm (calls ! j)"
        using build_outcome_Err [of bm "calls ! j"] by auto
      with True Ok Cons show ?thesis by simp
    next
      case (Panic p)
      then have "\<not> build_failed bm (calls ! j)"
        using build_outcome_Err [of bm "calls ! j"] by auto
      with True Panic Cons show ?thesis by simp
    qed
  qed
qed

lemma find_all_started:
  assumes "find (\<lambda>j. j < n \<and> P j) (order @ [0..<n]) = None" and "j < n"
  shows "\<not> P j"
proof -
  from assms(1) have "\<forall>i\<in>set (order @ [0..<n]). \<not> (i < n \<and> P i)"
    by (simp only: find_None_iff) blast
  with assms(2) show ?thesis by simp
qed

subsection \<open>The result slice when every build succeeded\<close>

lemma results_of_class:
  fixes inp :: "nat \<Rightarrow> nat \<Rightarrow> api_BuildInput"
  assumes rs: "mset rs = mset (representatives bs)"
    and ok: "\<And>j. j < length rs \<Longrightarrow> build_outcome bm (inp j (rs ! j)) = Ok ()"
    and p: "p < length bs" and len: "length ress0 = length bs"
  shows "\<exists>i j res. i \<in> set (representatives bs) \<and> j < length rs \<and> rs ! j = i
           \<and> BuildKey (bs ! i) = BuildKey (bs ! p)
           \<and> b_Build bm (inp j i) = (Some res, None)
           \<and> (\<forall>q<length bs. BuildKey (bs ! q) = BuildKey (bs ! p) \<longrightarrow>
                 foldl (\<lambda>ress (j, i). fiber_write bm (inp j i) (class_of bs i) ress)
                       ress0 (enumerate 0 rs) ! q = Some (stamped bm res))"
proof -
  from p have "BuildKey (bs ! p) \<in> BuildKey ` set bs" by simp
  then have "BuildKey (bs ! p) \<in> (\<lambda>i. BuildKey (bs ! i)) ` set (representatives bs)"
    by (simp only: representatives_keys_set)
  then obtain i where i: "i \<in> set (representatives bs)"
    and key: "BuildKey (bs ! i) = BuildKey (bs ! p)" by auto
  from i mset_eq_setD [OF rs] have "i \<in> set rs" by simp
  then obtain j where j: "j < length rs" and rj: "rs ! j = i"
    by (auto simp: in_set_conv_nth)
  from build_outcome_Ok [OF ok [OF j]] rj obtain res where
    res: "b_Build bm (inp j i) = (Some res, None)" by auto
  have "mset (map (\<lambda>i. BuildKey (bs ! i)) rs)
      = mset (map (\<lambda>i. BuildKey (bs ! i)) (representatives bs))"
    using rs by (simp only: mset_map)
  from mset_eq_imp_distinct_iff [OF this] representatives_distinct_keys [of bs]
  have d: "distinct (map (\<lambda>i. BuildKey (bs ! i)) rs)" by simp
  have mem: "(j, i) \<in> set (enumerate 0 rs)"
    using j rj by (simp add: in_set_enumerate_eq)
  have cls: "BuildKey (bs ! a) = BuildKey (bs ! b)" if "a \<in> set (class_of bs b)" for a b
    using that by (simp add: class_of_mem)
  have "foldl (\<lambda>ress (j, i). fiber_write bm (inp j i) (class_of bs i) ress)
          ress0 (enumerate 0 rs) ! q = Some (stamped bm res)"
    if q: "q < length bs" and kq: "BuildKey (bs ! q) = BuildKey (bs ! p)" for q
  proof -
    have a: "q \<in> set (class_of bs i)" using q kq key by (simp add: class_of_mem)
    have b: "q < length ress0" using q len by simp
    show ?thesis
      by (rule foldl_fiber_write_nth
            [where K = "\<lambda>i. BuildKey (bs ! i)" and cls = "class_of bs" and inp = inp
               and rs = rs and cnt = 0 and j = j and i = i and p = q and ress = ress0
               and bm = bm and res = res, OF d cls mem a b res])
  qed
  with i j rj key res show ?thesis by blast
qed

subsection \<open>doBuild\<close>

lemma doBuild_reaches_fan_out:
  assumes "PrepareForBuild s (build_Composition input) (build_Manifest input) = (s1, Ok cmp)"
    and "ValidateForBuild x s1 cmp = None"
    and "map_of (builders e) (Builder (Global cmp)) = Some bm"
    and "healthcheck_gate (b_Healthcheck bm) = None"
    and "CoalesceIntoType x
           [map_of (env_Builders (envcfg e)) (Builder (Global cmp)),
            map_option (map_at s1) (Global_BuildConfig (Global cmp))]
           (b_ConfigType bm) = Inr obj"
  shows "doBuild x e s input = (s1, fan_out x e bm s1 cmp obj (build_Sources input))"
  by (simp add: doBuild_def assms split: prod.split)

lemma fan_out_copy_fails:
  "final_sources x sources (card (BuildKey ` set (group_builds s cmp))) = Inl msg \<Longrightarrow>
   fan_out x e bm s cmp obj sources = ([], Err (SourceCopyError msg))"
  by (simp add: fan_out_def group_builds_def [symmetric] map_len_index_groups)

lemma doBuild_shape:
  assumes prep: "PrepareForBuild s (build_Composition input) (build_Manifest input) = (s1, Ok cmp)"
    and valid: "ValidateForBuild x s1 cmp = None"
    and reg: "map_of (builders e) (Builder (Global cmp)) = Some bm"
    and health: "healthcheck_gate (b_Healthcheck bm) = None"
    and coalesce: "CoalesceIntoType x
           [map_of (env_Builders (envcfg e)) (Builder (Global cmp)),
            map_option (map_at s1) (Global_BuildConfig (Global cmp))]
           (b_ConfigType bm) = Inr obj"
    and bs: "bs = group_builds s1 cmp"
    and srcs: "final_sources x (build_Sources input) (card (BuildKey ` set bs)) = Inr srcs"
    and order: "mset (range_order x (index_groups bs 0 [])) = mset (index_groups bs 0 [])"
    and run: "doBuild x e s input = (s', calls, r)"
  shows "\<exists>rs. mset rs = mset (representatives bs)
      \<and> calls = map (\<lambda>(j, i). fiber_input x e s1 cmp obj srcs j i) (enumerate 0 rs)
      \<and> r = (case first_panic (map (build_outcome bm) calls) of
                Some p \<Rightarrow> Panic p
              | None \<Rightarrow>
                  (case first_error (finish_order x @ [0..<length calls])
                          (map (build_outcome bm) calls) of
                     Some err \<Rightarrow> Err err
                   | None \<Rightarrow>
                       Ok (foldl (\<lambda>ress (j, i). fiber_write bm (fiber_input x e s1 cmp obj srcs j i)
                                                  (class_of bs i) ress)
                                 (replicate (length (Groups cmp)) None) (enumerate 0 rs))))"
proof -
  from started_order [OF order] obtain rs where
    ord: "range_order x (index_groups bs 0 []) = map (\<lambda>i. (BuildKey (bs ! i), class_of bs i)) rs"
    and rs: "mset rs = mset (representatives bs)" by blast
  note d = doBuild_reaches_fan_out [OF prep valid reg health coalesce]
  have o: "map (\<lambda>(j, i). build_outcome bm (F j i)) js
             = map (build_outcome bm) (map (\<lambda>(j, i). F j i) js)"
    for F :: "nat \<Rightarrow> nat \<Rightarrow> api_BuildInput" and js
    by (induction js) auto
  from run have "(s1, fan_out x e bm s1 cmp obj (build_Sources input)) = (s', calls, r)"
    by (simp only: d)
  then have "fan_out x e bm s1 cmp obj (build_Sources input) = (calls, r)"
    by (rule Pair_inject)
  with fan_out_eq [OF srcs [unfolded bs] ord [unfolded bs] rs [unfolded bs], of e bm obj]
  have c: "calls = map (\<lambda>(j, i). fiber_input x e s1 cmp obj srcs j i) (enumerate 0 rs)"
    and r: "r = (case first_panic (map (\<lambda>(j, i). build_outcome bm (fiber_input x e s1 cmp obj srcs j i))
                            (enumerate 0 rs)) of
        Some p \<Rightarrow> Panic p
      | None \<Rightarrow>
          (case first_error (finish_order x @ [0..<length rs])
                  (map (\<lambda>(j, i). build_outcome bm (fiber_input x e s1 cmp obj srcs j i))
                       (enumerate 0 rs)) of
             Some err \<Rightarrow> Err err
           | None \<Rightarrow>
               Ok (foldl (\<lambda>ress (j, i). fiber_write bm (fiber_input x e s1 cmp obj srcs j i)
                                          (class_of (group_builds s1 cmp) i) ress)
                         (replicate (length (Groups cmp)) None) (enumerate 0 rs))))"
    by simp_all
  have l: "length calls = length rs" by (simp add: c)
  from r have "r = (case first_panic (map (build_outcome bm) calls) of
                Some p \<Rightarrow> Panic p
              | None \<Rightarrow>
                  (case first_error (finish_order x @ [0..<length calls])
                          (map (build_outcome bm) calls) of
                     Some err \<Rightarrow> Err err
                   | None \<Rightarrow>
                       Ok (foldl (\<lambda>ress (j, i). fiber_write bm (fiber_input x e s1 cmp obj srcs j i)
                                                  (class_of bs i) ress)
                                 (replicate (length (Groups cmp)) None) (enumerate 0 rs))))"
    by (simp only: o l bs c [symmetric])
  with rs c show ?thesis by blast
qed

lemma nth_group_builds:
  "i < length (Groups cmp) \<Longrightarrow> group_builds s cmp ! i = Build (group_at s (Groups cmp ! i))"
  by (simp add: group_builds_def)

lemma calls_nth:
  "j < length rs \<Longrightarrow> map (\<lambda>(j, i). F j i) (enumerate 0 rs) ! j = F j (rs ! j)"
  by (simp add: nth_enumerate_eq)

lemma calls_build:
  "map (\<lambda>c. (bi_Selectors c, bi_Dependencies c))
       (map (\<lambda>(j, i). fiber_input x e s cmp obj srcs j i) (enumerate 0 rs))
     = map (\<lambda>i. (Selectors (Build (group_at s (Groups cmp ! i))),
                  dependency_targets (Dependencies (Build (group_at s (Groups cmp ! i)))) [])) rs"
proof -
  have "map (\<lambda>c. (bi_Selectors c, bi_Dependencies c))
       (map (\<lambda>(j, i). fiber_input x e s cmp obj srcs j i) (enumerate n rs))
     = map (\<lambda>i. (Selectors (Build (group_at s (Groups cmp ! i))),
                  dependency_targets (Dependencies (Build (group_at s (Groups cmp ! i)))) [])) rs"
    for n
    by (induction rs arbitrary: n) (simp_all add: fiber_input_def build_input_def)
  then show ?thesis .
qed

subsection \<open>The three groups\<close>

lemmas fanout_defs =
  fanout_store_def fanout_composition_def fanout_engine_def fanout_input_def
  selector_builder_def full_disk_def

lemma fanout_keys:
  "BuildKey (fanout_build 0) = ''selectors=x,y;dependencies=''"
  "BuildKey (fanout_build 1) = ''selectors=x,y;dependencies=''"
  "BuildKey (fanout_build (Suc 0)) = ''selectors=x,y;dependencies=''"
  "BuildKey (fanout_build 2) = ''selectors=z;dependencies=''"
  by (simp_all add: fanout_build_def BuildKey_def)

lemma fanout_PrepareForBuild:
  "snd (PrepareForBuild fanout_store fanout_composition example_manifest)
     = Ok (fanout_composition\<lparr>Global := example_global\<lparr>Global_BuildConfig := Some 0\<rparr>\<rparr>)"
  by (simp add: PrepareForBuild_def example_defs fanout_defs prepare_simps)

lemma fanout_prepared_builds:
  "group_builds (fst (PrepareForBuild fanout_store fanout_composition example_manifest))
     (fanout_composition\<lparr>Global := example_global\<lparr>Global_BuildConfig := Some 0\<rparr>\<rparr>)
   = [fanout_build 0, fanout_build 1, fanout_build 2]"
  by (simp add: group_builds_def PrepareForBuild_def example_defs fanout_defs prepare_simps)

lemma fanout_ValidateForBuild:
  "ValidateForBuild example_extern
     (fst (PrepareForBuild fanout_store fanout_composition example_manifest))
     (fanout_composition\<lparr>Global := example_global\<lparr>Global_BuildConfig := Some 0\<rparr>\<rparr>) = None"
  by (simp add: ValidateForBuild_def PrepareForBuild_def example_defs fanout_defs prepare_simps
      ValidateInstances_def f64_of_uint_def Groups_Validate_def)

lemma fanout_card:
  "card (BuildKey ` set [fanout_build 0, fanout_build 1, fanout_build 2]) = 2"
  by (simp add: fanout_keys)

lemma fanout_representatives:
  "representatives [fanout_build 0, fanout_build 1, fanout_build 2] = [0, 2]"
  by (simp add: representatives_def fanout_keys upt_rec take_Suc_conv_app_nth)

text \<open>
  C9, for a doBuild that reaches its fan-out: the composition is prepared and validated,
  its builder is registered and passes the healthcheck gate, the build configuration
  coalesces, the source tree is duplicated for each of the \<open>k\<close> distinct build keys, and
  \<^verbatim>\<open>range uniq\<close> visits each entry of the map once, in whatever order. Then \<^verbatim>\<open>Build\<close> is
  called exactly \<open>k\<close> times, once with the selectors and the dependencies of the first
  group of each equivalence class. When doBuild returns a result slice, the slice has one
  entry per group, none of them nil, the entries of the groups of a class are equal, and
  each is the output of the call made for the class of its group, stamped with the
  builder's id. When no \<^verbatim>\<open>Build\<close> returns a nil output without an error, doBuild returns
  the error of the failing fiber that finishes first, and a result slice when none fails;
  a nil output without an error makes the fiber dereference nil.
\<close>

theorem doBuild_fan_out:
  assumes prep: "PrepareForBuild s (build_Composition input) (build_Manifest input) = (s1, Ok cmp)"
    and valid: "ValidateForBuild x s1 cmp = None"
    and reg: "map_of (builders e) (Builder (Global cmp)) = Some bm"
    and health: "healthcheck_gate (b_Healthcheck bm) = None"
    and coalesce: "CoalesceIntoType x
           [map_of (env_Builders (envcfg e)) (Builder (Global cmp)),
            map_option (map_at s1) (Global_BuildConfig (Global cmp))]
           (b_ConfigType bm) = Inr obj"
    and bs: "bs = group_builds s1 cmp"
    and srcs: "final_sources x (build_Sources input) (card (BuildKey ` set bs)) = Inr srcs"
    and order: "mset (range_order x (index_groups bs 0 [])) = mset (index_groups bs 0 [])"
    and run: "doBuild x e s input = (s', calls, r)"
  shows "length calls = card (BuildKey ` set bs)
     \<and> mset (map (\<lambda>c. (bi_Selectors c, bi_Dependencies c)) calls)
         = mset (map (\<lambda>i. (Selectors (bs ! i), dependency_targets (Dependencies (bs ! i)) []))
                     (representatives bs))
     \<and> (\<forall>ress. r = Ok ress \<longrightarrow>
           length ress = length (Groups cmp)
           \<and> (\<forall>p<length (Groups cmp).
                 ress ! p \<noteq> None
                 \<and> (\<forall>q<length (Groups cmp).
                       BuildKey (bs ! q) = BuildKey (bs ! p) \<longrightarrow> ress ! q = ress ! p)
                 \<and> (\<exists>i\<in>set (representatives bs). \<exists>c\<in>set calls. \<exists>res.
                       BuildKey (bs ! i) = BuildKey (bs ! p)
                       \<and> bi_Selectors c = Selectors (bs ! i)
                       \<and> bi_Dependencies c = dependency_targets (Dependencies (bs ! i)) []
                       \<and> b_Build bm c = (Some res, None)
                       \<and> ress ! p = Some (stamped bm res))))
     \<and> ((\<forall>c\<in>set calls. b_Build bm c \<noteq> (None, None)) \<longrightarrow>
           (case find (\<lambda>j. j < length calls \<and> build_failed bm (calls ! j))
                   (finish_order x @ [0..<length calls]) of
              Some j \<Rightarrow> r = Err (PluginError (the (snd (b_Build bm (calls ! j)))))
            | None \<Rightarrow> (\<exists>ress. r = Ok ress)))
     \<and> ((\<exists>c\<in>set calls. b_Build bm c = (None, None)) \<longrightarrow> r = Panic NilDereference)"
proof -
  let ?inp = "\<lambda>j i. fiber_input x e s1 cmp obj srcs j i"
  let ?final = "foldl (\<lambda>ress (j, i). fiber_write bm (?inp j i) (class_of bs i) ress)
                      (replicate (length (Groups cmp)) None)"
  let ?order = "finish_order x @ [0..<length calls]"
  let ?failed = "\<lambda>j. j < length calls \<and> build_failed bm (calls ! j)"
  from doBuild_shape [OF assms] obtain rs where
    rs: "mset rs = mset (representatives bs)"
    and c: "calls = map (\<lambda>(j, i). ?inp j i) (enumerate 0 rs)"
    and r: "r = (case first_panic (map (build_outcome bm) calls) of
                Some p \<Rightarrow> Panic p
              | None \<Rightarrow>
                  (case first_error ?order (map (build_outcome bm) calls) of
                     Some err \<Rightarrow> Err err
                   | None \<Rightarrow> Ok (?final (enumerate 0 rs))))"
    by blast
  have N: "length bs = length (Groups cmp)" by (simp add: bs)
  have l: "length calls = length rs" by (simp add: c)
  have nth: "calls ! j = ?inp j (rs ! j)" if "j < length rs" for j
    using that by (simp only: c calls_nth)
  have rep: "bs ! i = Build (group_at s1 (Groups cmp ! i))" if "i \<in> set (representatives bs)" for i
    using representatives_lt [OF that] by (simp add: bs nth_group_builds)

  have P1: "length calls = card (BuildKey ` set bs)"
    using mset_eq_length [OF rs] by (simp add: l length_representatives)

  have "map (\<lambda>c. (bi_Selectors c, bi_Dependencies c)) calls
      = map (\<lambda>i. (Selectors (Build (group_at s1 (Groups cmp ! i))),
                  dependency_targets (Dependencies (Build (group_at s1 (Groups cmp ! i)))) [])) rs"
    by (simp only: c calls_build)
  then have "mset (map (\<lambda>c. (bi_Selectors c, bi_Dependencies c)) calls)
      = mset (map (\<lambda>i. (Selectors (Build (group_at s1 (Groups cmp ! i))),
                  dependency_targets (Dependencies (Build (group_at s1 (Groups cmp ! i)))) []))
                  (representatives bs))"
    by (simp add: rs)
  also have "map (\<lambda>i. (Selectors (Build (group_at s1 (Groups cmp ! i))),
                  dependency_targets (Dependencies (Build (group_at s1 (Groups cmp ! i)))) []))
                  (representatives bs)
      = map (\<lambda>i. (Selectors (bs ! i), dependency_targets (Dependencies (bs ! i)) []))
            (representatives bs)"
    by (rule map_cong [OF refl]) (simp add: rep)
  finally have P2: "mset (map (\<lambda>c. (bi_Selectors c, bi_Dependencies c)) calls)
         = mset (map (\<lambda>i. (Selectors (bs ! i), dependency_targets (Dependencies (bs ! i)) []))
                     (representatives bs))" .

  have P3: "length ress = length (Groups cmp)
           \<and> (\<forall>p<length (Groups cmp).
                 ress ! p \<noteq> None
                 \<and> (\<forall>q<length (Groups cmp).
                       BuildKey (bs ! q) = BuildKey (bs ! p) \<longrightarrow> ress ! q = ress ! p)
                 \<and> (\<exists>i\<in>set (representatives bs). \<exists>c\<in>set calls. \<exists>res.
                       BuildKey (bs ! i) = BuildKey (bs ! p)
                       \<and> bi_Selectors c = Selectors (bs ! i)
                       \<and> bi_Dependencies c = dependency_targets (Dependencies (bs ! i)) []
                       \<and> b_Build bm c = (Some res, None)
                       \<and> ress ! p = Some (stamped bm res)))"
    if ok: "r = Ok ress" for ress
  proof -
    from ok r have np: "first_panic (map (build_outcome bm) calls) = None"
      by (cases "first_panic (map (build_outcome bm) calls)") simp_all
    from ok r np have ne: "first_error ?order (map (build_outcome bm) calls) = None"
      by (cases "first_error ?order (map (build_outcome bm) calls)") simp_all
    from ok r np ne have final: "ress = ?final (enumerate 0 rs)" by simp
    from ne have "find ?failed ?order = None"
      by (simp only: first_error_builds split: option.splits) simp
    from find_all_started [of "length calls" "\<lambda>j. build_failed bm (calls ! j)", OF this]
    have nf: "\<not> build_failed bm (calls ! j)" if "j < length calls" for j
      using that by simp
    have good: "build_outcome bm (?inp j (rs ! j)) = Ok ()" if j: "j < length rs" for j
    proof (cases "build_outcome bm (calls ! j)")
      case (Ok u)
      then show ?thesis by (simp add: nth [OF j])
    next
      case (Err err)
      with build_outcome_Err [of bm "calls ! j" err] nf [of j] j l show ?thesis by simp
    next
      case (Panic p)
      from j l have "build_outcome bm (calls ! j) \<in> set (map (build_outcome bm) calls)"
        by simp
      with np [unfolded first_panic_None] Panic show ?thesis by blast
    qed
    have len: "length ress = length (Groups cmp)" by (simp add: final)
    have each: "ress ! p \<noteq> None
                 \<and> (\<forall>q<length (Groups cmp).
                       BuildKey (bs ! q) = BuildKey (bs ! p) \<longrightarrow> ress ! q = ress ! p)
                 \<and> (\<exists>i\<in>set (representatives bs). \<exists>c\<in>set calls. \<exists>res.
                       BuildKey (bs ! i) = BuildKey (bs ! p)
                       \<and> bi_Selectors c = Selectors (bs ! i)
                       \<and> bi_Dependencies c = dependency_targets (Dependencies (bs ! i)) []
                       \<and> b_Build bm c = (Some res, None)
                       \<and> ress ! p = Some (stamped bm res))"
      if p: "p < length (Groups cmp)" for p
    proof -
      from p N have p': "p < length bs" by simp
      have l0: "length (replicate (length (Groups cmp)) (None :: BuildOutput option)) = length bs"
        by (simp add: N)
      from results_of_class [of rs bs bm ?inp, OF rs good p' l0]
      obtain i j res where i: "i \<in> set (representatives bs)" and j: "j < length rs"
        and rj: "rs ! j = i" and key: "BuildKey (bs ! i) = BuildKey (bs ! p)"
        and res: "b_Build bm (?inp j i) = (Some res, None)"
        and all: "\<And>q. q < length bs \<Longrightarrow> BuildKey (bs ! q) = BuildKey (bs ! p) \<Longrightarrow>
                    ?final (enumerate 0 rs) ! q = Some (stamped bm res)"
        by blast
      from all [OF p' refl] have own: "ress ! p = Some (stamped bm res)"
        by (simp only: final)
      have cj: "calls ! j = ?inp j i" using nth [OF j] rj by simp
      from j l have mem: "calls ! j \<in> set calls" by simp
      have sel: "bi_Selectors (calls ! j) = Selectors (bs ! i)"
        and dep: "bi_Dependencies (calls ! j) = dependency_targets (Dependencies (bs ! i)) []"
        by (simp_all add: cj rep [OF i] fiber_input_def build_input_def)
      from res have b: "b_Build bm (calls ! j) = (Some res, None)" by (simp only: cj)
      have same: "ress ! q = ress ! p"
        if "q < length (Groups cmp)" and "BuildKey (bs ! q) = BuildKey (bs ! p)" for q
        using all [of q] that own N by (simp add: final)
      from own have "ress ! p \<noteq> None" by simp
      moreover from same have "\<forall>q<length (Groups cmp).
          BuildKey (bs ! q) = BuildKey (bs ! p) \<longrightarrow> ress ! q = ress ! p" by blast
      moreover from i mem key sel dep b own
      have "\<exists>i\<in>set (representatives bs). \<exists>c\<in>set calls. \<exists>res.
              BuildKey (bs ! i) = BuildKey (bs ! p)
              \<and> bi_Selectors c = Selectors (bs ! i)
              \<and> bi_Dependencies c = dependency_targets (Dependencies (bs ! i)) []
              \<and> b_Build bm c = (Some res, None)
              \<and> ress ! p = Some (stamped bm res)" by blast
      ultimately show ?thesis by blast
    qed
    from len each show ?thesis by blast
  qed

  have P4: "case find ?failed ?order of
              Some j \<Rightarrow> r = Err (PluginError (the (snd (b_Build bm (calls ! j)))))
            | None \<Rightarrow> (\<exists>ress. r = Ok ress)"
    if "\<forall>c\<in>set calls. b_Build bm c \<noteq> (None, None)"
    using r by (simp add: first_panic_builds_None [OF that] first_error_builds
        split: option.split)

  have P5: "r = Panic NilDereference" if "\<exists>c\<in>set calls. b_Build bm c = (None, None)"
    using r by (simp add: first_panic_builds_Some [OF that])

  from P1 P2 P3 P4 P5 show ?thesis by blast
qed

theorem doBuild_fan_out_witness:
  "length (fst (snd (doBuild example_extern fanout_engine fanout_store fanout_input))) = 2
   \<and> mset (map (\<lambda>c. (bi_Selectors c, bi_Dependencies c))
              (fst (snd (doBuild example_extern fanout_engine fanout_store fanout_input))))
       = {#([''x'', ''y''], []), ([''z''], [])#}
   \<and> (\<exists>ress. snd (snd (doBuild example_extern fanout_engine fanout_store fanout_input)) = Ok ress
          \<and> length ress = 3 \<and> ress ! 0 \<noteq> None \<and> ress ! 1 = ress ! 0 \<and> ress ! 2 \<noteq> None)"
proof -
  let ?D = "doBuild example_extern fanout_engine fanout_store fanout_input"
  let ?s1 = "fst (PrepareForBuild fanout_store fanout_composition example_manifest)"
  let ?cmp = "fanout_composition\<lparr>Global := example_global\<lparr>Global_BuildConfig := Some 0\<rparr>\<rparr>"
  let ?bs = "[fanout_build 0, fanout_build 1, fanout_build 2]"
  let ?calls = "fst (snd ?D)"
  let ?r = "snd (snd ?D)"
  have prep: "PrepareForBuild fanout_store (build_Composition fanout_input)
                (build_Manifest fanout_input) = (?s1, Ok ?cmp)"
    using fanout_PrepareForBuild by (simp add: prod_eq_iff fanout_input_def)
  have reg: "map_of (builders fanout_engine) (Builder (Global ?cmp)) = Some selector_builder"
    by (simp add: fanout_engine_def example_engine_def example_global_def)
  have health: "healthcheck_gate (b_Healthcheck selector_builder) = None"
    by (simp add: healthcheck_gate_def selector_builder_def)
  have coalesce: "CoalesceIntoType example_extern
           [map_of (env_Builders (envcfg fanout_engine)) (Builder (Global ?cmp)),
            map_option (map_at ?s1) (Global_BuildConfig (Global ?cmp))]
           (b_ConfigType selector_builder) = Inr (AMap [])"
    by (simp add: example_extern_def)
  have bs: "?bs = group_builds ?s1 ?cmp"
    by (simp only: fanout_prepared_builds)
  have srcs: "final_sources example_extern (build_Sources fanout_input)
                (card (BuildKey ` set ?bs)) = Inr [example_sources, example_sources]"
    by (simp only: fanout_card)
      (simp add: final_sources_def example_extern_def fanout_input_def numeral_2_eq_2)
  have order: "mset (range_order example_extern (index_groups ?bs 0 []))
                 = mset (index_groups ?bs 0 [])"
    by (simp add: example_extern_def)
  have run: "?D = (fst ?D, ?calls, ?r)" by simp
  note th = doBuild_fan_out
    [OF prep fanout_ValidateForBuild reg health coalesce bs srcs order run]
  from th have c1: "length ?calls = 2"
    by (simp only: fanout_card)
  from th have "mset (map (\<lambda>c. (bi_Selectors c, bi_Dependencies c)) ?calls)
         = mset (map (\<lambda>i. (Selectors (?bs ! i), dependency_targets (Dependencies (?bs ! i)) []))
                     (representatives ?bs))"
    by (rule conjunct1 [OF conjunct2])
  then have c2: "mset (map (\<lambda>c. (bi_Selectors c, bi_Dependencies c)) ?calls)
       = {#([''x'', ''y''], []), ([''z''], [])#}"
    by (simp only: fanout_representatives) (simp add: fanout_build_def)
  have fine: "b_Build selector_builder c \<noteq> (None, None)" for c
    by (simp add: selector_builder_def)
  have none: "find (\<lambda>j. j < length ?calls \<and> build_failed selector_builder (?calls ! j)) order
                = None" for order
    by (simp add: find_None_iff build_failed_def selector_builder_def)
  from th have "(\<forall>c\<in>set ?calls. b_Build selector_builder c \<noteq> (None, None)) \<longrightarrow>
           (case find (\<lambda>j. j < length ?calls \<and> build_failed selector_builder (?calls ! j))
                   (finish_order example_extern @ [0..<length ?calls]) of
              Some j \<Rightarrow> ?r = Err (PluginError (the (snd (b_Build selector_builder (?calls ! j)))))
            | None \<Rightarrow> (\<exists>ress. ?r = Ok ress))"
    by (rule conjunct1 [OF conjunct2 [OF conjunct2 [OF conjunct2]]])
  with fine none obtain ress where ok: "?r = Ok ress"
    by (auto simp only: option.case)
  from th have "\<forall>ress. ?r = Ok ress \<longrightarrow>
           length ress = length (Groups ?cmp)
           \<and> (\<forall>p<length (Groups ?cmp).
                 ress ! p \<noteq> None
                 \<and> (\<forall>q<length (Groups ?cmp).
                       BuildKey (?bs ! q) = BuildKey (?bs ! p) \<longrightarrow> ress ! q = ress ! p)
                 \<and> (\<exists>i\<in>set (representatives ?bs). \<exists>c\<in>set ?calls. \<exists>res.
                       BuildKey (?bs ! i) = BuildKey (?bs ! p)
                       \<and> bi_Selectors c = Selectors (?bs ! i)
                       \<and> bi_Dependencies c = dependency_targets (Dependencies (?bs ! i)) []
                       \<and> b_Build selector_builder c = (Some res, None)
                       \<and> ress ! p = Some (stamped selector_builder res)))"
    by (rule conjunct1 [OF conjunct2 [OF conjunct2]])
  with ok have len: "length ress = length (Groups ?cmp)"
    and each: "\<And>p. p < length (Groups ?cmp) \<Longrightarrow> ress ! p \<noteq> None
                 \<and> (\<forall>q<length (Groups ?cmp).
                       BuildKey (?bs ! q) = BuildKey (?bs ! p) \<longrightarrow> ress ! q = ress ! p)"
    by blast+
  have g: "length (Groups ?cmp) = 3" by (simp add: fanout_composition_def)
  have zero: "0 < length (Groups ?cmp)" and one: "1 < length (Groups ?cmp)"
    and two: "2 < length (Groups ?cmp)"
    by (simp_all add: fanout_composition_def)
  from each [OF zero] have a0: "ress ! 0 \<noteq> None"
    and all0: "\<forall>q<length (Groups ?cmp).
                 BuildKey (?bs ! q) = BuildKey (?bs ! 0) \<longrightarrow> ress ! q = ress ! 0"
    by blast+
  have k: "BuildKey (?bs ! 1) = BuildKey (?bs ! 0)" by (simp add: fanout_keys)
  from all0 one k have a1: "ress ! 1 = ress ! 0" by blast
  from each [OF two] have a2: "ress ! 2 \<noteq> None" by blast
  from len g have l3: "length ress = 3" by (simp only:)
  from ok l3 a0 a1 a2 have c3: "\<exists>ress. ?r = Ok ress \<and> length ress = 3 \<and> ress ! 0 \<noteq> None
      \<and> ress ! 1 = ress ! 0 \<and> ress ! 2 \<noteq> None"
    by blast
  from c1 c2 c3 show ?thesis by (intro conjI)
qed

text \<open>
  The claim as stated, for every prepared and validated composition, fails: the three
  groups have two distinct build keys, the builder is registered and healthy, and when
  the copy of the source tree fails doBuild returns that error and has called \<^verbatim>\<open>Build\<close>
  not once.
\<close>

theorem doBuild_source_copy_counterexample:
  "snd (PrepareForBuild fanout_store (build_Composition fanout_input) (build_Manifest fanout_input))
     = Ok (fanout_composition\<lparr>Global := example_global\<lparr>Global_BuildConfig := Some 0\<rparr>\<rparr>)
   \<and> ValidateForBuild full_disk
        (fst (PrepareForBuild fanout_store (build_Composition fanout_input)
                (build_Manifest fanout_input)))
        (fanout_composition\<lparr>Global := example_global\<lparr>Global_BuildConfig := Some 0\<rparr>\<rparr>) = None
   \<and> card (BuildKey ` set (group_builds
        (fst (PrepareForBuild fanout_store (build_Composition fanout_input)
                (build_Manifest fanout_input)))
        (fanout_composition\<lparr>Global := example_global\<lparr>Global_BuildConfig := Some 0\<rparr>\<rparr>))) = 2
   \<and> snd (doBuild full_disk fanout_engine fanout_store fanout_input)
       = ([], Err (SourceCopyError ''no space left on device''))"
proof -
  let ?s1 = "fst (PrepareForBuild fanout_store fanout_composition example_manifest)"
  let ?cmp = "fanout_composition\<lparr>Global := example_global\<lparr>Global_BuildConfig := Some 0\<rparr>\<rparr>"
  have v: "ValidateForBuild full_disk ?s1 ?cmp = ValidateForBuild example_extern ?s1 ?cmp"
    by (simp add: ValidateForBuild_def full_disk_def)
  have prep: "PrepareForBuild fanout_store fanout_composition example_manifest = (?s1, Ok ?cmp)"
    using fanout_PrepareForBuild by (simp add: prod_eq_iff)
  have "final_sources full_disk example_sources
          (card (BuildKey ` set (group_builds ?s1 ?cmp))) = Inl ''no space left on device''"
    by (simp only: fanout_prepared_builds fanout_card)
      (simp add: final_sources_def full_disk_def numeral_2_eq_2)
  then have f: "fan_out full_disk fanout_engine selector_builder ?s1 ?cmp (AMap []) example_sources
      = ([], Err (SourceCopyError ''no space left on device''))"
    by (rule fan_out_copy_fails)
  have prep': "PrepareForBuild fanout_store (build_Composition fanout_input)
                (build_Manifest fanout_input) = (?s1, Ok ?cmp)"
    using prep by (simp add: fanout_input_def)
  have valid: "ValidateForBuild full_disk ?s1 ?cmp = None"
    by (simp only: v fanout_ValidateForBuild)
  have reg: "map_of (builders fanout_engine) (Builder (Global ?cmp)) = Some selector_builder"
    by (simp add: fanout_engine_def example_engine_def example_global_def)
  have health: "healthcheck_gate (b_Healthcheck selector_builder) = None"
    by (simp add: healthcheck_gate_def selector_builder_def)
  have coalesce: "CoalesceIntoType full_disk
           [map_of (env_Builders (envcfg fanout_engine)) (Builder (Global ?cmp)),
            map_option (map_at ?s1) (Global_BuildConfig (Global ?cmp))]
           (b_ConfigType selector_builder) = Inr (AMap [])"
    by (simp add: full_disk_def example_extern_def)
  have src: "build_Sources fanout_input = example_sources"
    by (simp add: fanout_input_def)
  have d: "snd (doBuild full_disk fanout_engine fanout_store fanout_input)
       = ([], Err (SourceCopyError ''no space left on device''))"
    by (simp only: doBuild_reaches_fan_out [OF prep' valid reg health coalesce] src f snd_conv)
  have "card (BuildKey ` set (group_builds ?s1 ?cmp)) = 2"
    by (simp only: fanout_prepared_builds fanout_card)
  with prep' valid d show ?thesis
    by (simp only: fst_conv snd_conv simp_thms)
qed

end
